theory Spec2Isabelle
  imports Main
begin

section \<open>Data model of package sshauth\<close>

text \<open>
  The three structs of the package. Go strings are byte strings, modelled as
  \<^typ>\<open>string\<close>; the empty string \<open>""\<close> is \<open>[]\<close>. A port is a Go \<open>int\<close>; the
  code only compares it with zero and prints it with \<open>%d\<close>, so no arithmetic can
  overflow and \<^typ>\<open>int\<close> is used.
\<close>

record Credential =
  Username :: string
  Password :: string
  PrivateKey :: string

record SSHTestParams =
  Hosts :: "string list"
  Port :: int
  Username :: string
  Password :: string
  PrivateKey :: string

record SSHResult =
  Status :: string
  Success :: bool
  Username :: string
  Secret :: string
  Host :: string

subsection \<open>The ssh library as seen by the package\<close>

text \<open>
  \<open>golang.org/x/crypto/ssh\<close> is an external library. Its values are kept
  symbolic: a parsed key, an authentication method, a client configuration, a
  connection and a session. A Go interface value may be \<open>nil\<close>, so an
  \<open>ssh.AuthMethod\<close> in the model is an \<open>AuthMethod option\<close> with \<open>None\<close> for \<open>nil\<close>.
\<close>

datatype Signer = Signer string

datatype AuthMethod = PasswordAuth string | PublicKeys Signer

datatype HostKeyCallback = InsecureIgnoreHostKey

record ClientConfig =
  User :: string
  HostKeyCallback :: HostKeyCallback
  Timeout :: nat
  Auth :: "AuthMethod option list"

datatype Client = Client nat

datatype Session = Session nat

text \<open>
  The world outside the program: the file system, the key parser, the network
  and the JSON and CIDR helpers. Each is a function from the arguments the code
  passes to the outcome the code receives, \<open>Inl\<close> carrying the text of the Go
  \<open>error\<close>. \<open>AsksForAuth e network addr\<close> says that the server at the address
  is reached and refuses the \<open>none\<close> method, so that the client goes through
  the methods of its configuration; \<open>Dial\<close> is what the dial returns when it
  returns. The general theorems below hold for every such environment.
\<close>

record env =
  ReadFile :: "string \<Rightarrow> string + string"
  ParsePrivateKey :: "string \<Rightarrow> string + Signer"
  AsksForAuth :: "string \<Rightarrow> string \<Rightarrow> bool"
  Dial :: "string \<Rightarrow> string \<Rightarrow> ClientConfig \<Rightarrow> string + Client"
  NewSession :: "Client \<Rightarrow> string + Session"
  Unmarshal :: "string \<Rightarrow> string + SSHTestParams"
  NewCIDR :: "string \<Rightarrow> string + string list"
  MarshalIndent :: "SSHResult list \<Rightarrow> string \<Rightarrow> string \<Rightarrow> string + string"

text \<open>
  \<open>ssh.Dial\<close> of the library. The client first tries the \<open>none\<close> method; when
  the server refuses it, the client calls \<open>method()\<close> on the entries of
  \<open>config.Auth\<close>, and on a \<open>nil\<close> entry that call dereferences \<open>nil\<close> and panics.
  The program builds lists of one entry only. A dial that does not panic returns
  an error or a client.
\<close>

datatype dial_result = DialErr string | DialOk Client | DialPanic

definition ssh_Dial :: "env \<Rightarrow> string \<Rightarrow> string \<Rightarrow> ClientConfig \<Rightarrow> dial_result" where
  "ssh_Dial e network addr config =
     (if None \<in> set (Auth config) \<and> AsksForAuth e network addr then DialPanic
      else (case Dial e network addr config of
              Inl err \<Rightarrow> DialErr err
            | Inr client \<Rightarrow> DialOk client))"

subsection \<open>Formatting an integer with \<open>%d\<close>\<close>

definition digit_char :: "nat \<Rightarrow> char" where
  "digit_char d = ''0123456789'' ! d"

function show_nat :: "nat \<Rightarrow> string" where
  "show_nat n = (if n < 10 then [digit_char n] else show_nat (n div 10) @ [digit_char (n mod 10)])"
  by pat_completeness auto
termination
  by (relation "measure (\<lambda>n. n)") auto

declare show_nat.simps [simp del]

definition show_int :: "int \<Rightarrow> string" where
  "show_int i = (if i < 0 then CHR ''-'' # show_nat (nat (- i)) else show_nat (nat i))"

section \<open>A single attempt: \<open>PublicKeyFile\<close> and \<open>SSHLogin\<close>\<close>

text \<open>
  \<open>PublicKeyFile\<close> returns \<open>nil\<close> when the file cannot be read or the key cannot
  be parsed, and \<open>ssh.PublicKeys(key)\<close> otherwise.
\<close>

definition PublicKeyFile :: "env \<Rightarrow> string \<Rightarrow> AuthMethod option" where
  "PublicKeyFile e file =
     (case ReadFile e file of
        Inl err \<Rightarrow> None
      | Inr buffer \<Rightarrow>
          (case ParsePrivateKey e buffer of
             Inl err \<Rightarrow> None
           | Inr key \<Rightarrow> Some (PublicKeys key)))"

text \<open>
  What \<open>SSHLogin\<close> does to the outside, in program order: it reads the key file
  (inside \<open>PublicKeyFile\<close>, only on the private-key branch), dials, prints a
  debug line, opens and closes a session, and sends on \<open>sshResultChan\<close>. When
  the dial panics, the panic is the last thing \<open>SSHLogin\<close> does: it sends
  nothing, and the panic leaves the function.
\<close>

datatype effect =
    EReadFile string
  | EDial string string ClientConfig
  | EPanic
  | EPrintln string
  | ENewSession Client
  | EClose Session
  | ESend SSHResult

definition sshConfig_of :: "env \<Rightarrow> Credential \<Rightarrow> ClientConfig" where
  "sshConfig_of e cred =
     (if Credential.PrivateKey cred = []
      then \<lparr>User = Credential.Username cred, HostKeyCallback = InsecureIgnoreHostKey,
            Timeout = 500, Auth = [Some (PasswordAuth (Credential.Password cred))]\<rparr>
      else \<lparr>User = Credential.Username cred, HostKeyCallback = InsecureIgnoreHostKey,
            Timeout = 500, Auth = [PublicKeyFile e (Credential.PrivateKey cred)]\<rparr>)"

definition SSHLogin :: "env \<Rightarrow> string \<Rightarrow> int \<Rightarrow> Credential \<Rightarrow> bool \<Rightarrow> effect list" where
  "SSHLogin e host port cred debug =
     (let sshConfig = sshConfig_of e cred;
          res0 = \<lparr>Status = [], Success = False, Username = Credential.Username cred,
                  Secret = [], Host = host\<rparr>;
          res = (if Credential.PrivateKey cred = []
                 then res0\<lparr>Secret := Credential.Password cred\<rparr>
                 else res0\<lparr>Secret := Credential.PrivateKey cred\<rparr>);
          connectionStr = host @ '':'' @ show_int port
      in (if Credential.PrivateKey cred = [] then [] else [EReadFile (Credential.PrivateKey cred)])
         @ [EDial ''tcp'' connectionStr sshConfig]
         @ (case ssh_Dial e ''tcp'' connectionStr sshConfig of
              DialPanic \<Rightarrow> [EPanic]
            | DialErr err \<Rightarrow>
                (if debug then [EPrintln (''[DEBUG] Failed to dial: '' @ err)] else [])
                @ [ESend (res\<lparr>Success := False\<rparr>)]
            | DialOk connection \<Rightarrow>
                (case NewSession e connection of
                   Inl err \<Rightarrow>
                     [ENewSession connection, ESend (res\<lparr>Success := False, Status := err\<rparr>)]
                 | Inr session \<Rightarrow>
                     [ENewSession connection, EClose session, ESend (res\<lparr>Success := True\<rparr>)])))"

text \<open>The results sent on the channel and the dials made, read off a trace.\<close>

fun sends :: "effect list \<Rightarrow> SSHResult list" where
  "sends [] = []"
| "sends (ESend r # es) = r # sends es"
| "sends (_ # es) = sends es"

fun dials :: "effect list \<Rightarrow> (string \<times> string \<times> ClientConfig) list" where
  "dials [] = []"
| "dials (EDial n a c # es) = (n, a, c) # dials es"
| "dials (_ # es) = dials es"

section \<open>The goroutines of a job\<close>

text \<open>
  \<open>SSHBruteForce\<close> starts one goroutine per host (\<open>SSHBruteHost\<close>, which runs
  \<open>Brute\<close>), each of which starts one goroutine per credential (\<open>SSHLogin\<close>
  followed by the two deferred calls). The goroutines meet at the unbuffered
  channel \<open>sshResultChan\<close>, at the semaphore and at the wait group. The model is
  an interleaving of atomic steps: a scheduler picks which goroutine moves, and
  a goroutine that is blocked cannot be picked. It covers one call of
  \<open>SSHBruteForce\<close>: \<open>sshResultChan\<close> is a variable of the package, and calls that
  overlap in time would share it.
\<close>

record job =
  jenv :: env
  jhosts :: "string list"
  jport :: int
  jcreds :: "Credential list"
  jdebug :: bool

text \<open>
  The body of the goroutine started by \<open>Brute\<close>: \<open>SSHLogin\<close>, then the deferred
  calls in reverse order of their \<open>defer\<close> statements, \<open>wg.Done()\<close> first and
  \<open>auth.lock.Release(1)\<close> last. They run when \<open>SSHLogin\<close> returns and also
  when it panics.
\<close>

datatype instr = Eff effect | WgDone | Release

definition login_of :: "job \<Rightarrow> nat \<Rightarrow> nat \<Rightarrow> effect list" where
  "login_of J h j = SSHLogin (jenv J) (jhosts J ! h) (jport J) (jcreds J ! j) (jdebug J)"

definition trial_prog :: "job \<Rightarrow> nat \<Rightarrow> nat \<Rightarrow> instr list" where
  "trial_prog J h j = map Eff (login_of J h j) @ [WgDone, Release]"

text \<open>
  Program counters. \<open>SSHBruteForce\<close> is at its spawn loop with index \<open>i\<close>, at its
  receive loop with index \<open>i\<close>, or has returned. \<open>Brute\<close> for one host is at the
  head of its loop (the test \<open>i < len(creds)\<close> and the \<open>Acquire\<close>), at \<open>wg.Add(1)\<close>,
  at the \<open>go\<close> statement, at \<open>wg.Wait()\<close>, or has returned.
\<close>

datatype mainpc = MSpawn nat | MRecv nat | MReturned

datatype hostpc = NotStarted | HLoop nat | HAdd nat | HGo nat | HWait | HReturned

record state =
  mpc :: mainpc
  successfulHosts :: "SSHResult list"
  hpc :: "nat \<Rightarrow> hostpc"
  sem :: "nat \<Rightarrow> nat"
  wg :: "nat \<Rightarrow> nat"
  tpc :: "nat \<Rightarrow> nat \<Rightarrow> nat option"
  trace :: "(nat \<times> nat \<times> effect) list"
  panicked :: bool

text \<open>
  \<open>sem s h\<close> is the number of slots held of the semaphore of the \<open>h\<close>-th host
  goroutine, \<open>wg s h\<close> the counter of its wait group, \<open>tpc s h j\<close> the position
  of the goroutine for the \<open>j\<close>-th credential in its program (\<open>None\<close> before the
  \<open>go\<close> statement). \<open>trace s\<close> lists the effects performed so far, each with the
  host index and the credential index of the goroutine that performed it.
\<close>

definition init :: state where
  "init = \<lparr>mpc = MSpawn 0, successfulHosts = [], hpc = (\<lambda>h. NotStarted), sem = (\<lambda>h. 0),
           wg = (\<lambda>h. 0), tpc = (\<lambda>h j. None), trace = [], panicked = False\<rparr>"

text \<open>\<open>var lim int64 = 100\<close> in \<open>SSHBruteHost\<close>.\<close>

definition lim :: nat where
  "lim = 100"

datatype action = AMain | AHost nat | ATrial nat nat

text \<open>
  \<open>SSHBruteForce\<close>: spawn a goroutine for \<open>hosts[i]\<close> while \<open>i < len(hosts)\<close>; then
  receive while \<open>i < len(hosts)\<close>. A receive needs a sender, so it is a joint step
  with the sending goroutine and appears in \<open>trial_step\<close>.
\<close>

definition main_step :: "job \<Rightarrow> state \<Rightarrow> state option" where
  "main_step J s =
     (case mpc s of
        MSpawn i \<Rightarrow>
          if i < length (jhosts J)
          then Some (s\<lparr>hpc := (hpc s)(i := HLoop 0), mpc := MSpawn (i + 1)\<rparr>)
          else Some (s\<lparr>mpc := MRecv 0\<rparr>)
      | MRecv i \<Rightarrow>
          if i < length (jhosts J) then None else Some (s\<lparr>mpc := MReturned\<rparr>)
      | MReturned \<Rightarrow> None)"

text \<open>
  \<open>Brute\<close>: \<open>Acquire\<close> blocks while all \<open>lim\<close> slots are held (the context
  \<open>context.TODO()\<close> is never cancelled); \<open>wg.Wait()\<close> blocks while the counter is
  not zero.
\<close>

definition host_step :: "job \<Rightarrow> nat \<Rightarrow> state \<Rightarrow> state option" where
  "host_step J h s =
     (case hpc s h of
        NotStarted \<Rightarrow> None
      | HLoop i \<Rightarrow>
          if i < length (jcreds J)
          then (if sem s h + 1 \<le> lim
                then Some (s\<lparr>sem := (sem s)(h := sem s h + 1), hpc := (hpc s)(h := HAdd i)\<rparr>)
                else None)
          else Some (s\<lparr>hpc := (hpc s)(h := HWait)\<rparr>)
      | HAdd i \<Rightarrow> Some (s\<lparr>wg := (wg s)(h := wg s h + 1), hpc := (hpc s)(h := HGo i)\<rparr>)
      | HGo i \<Rightarrow>
          Some (s\<lparr>tpc := (tpc s)(h := (tpc s h)(i := Some 0)), hpc := (hpc s)(h := HLoop (i + 1))\<rparr>)
      | HWait \<Rightarrow> if wg s h = 0 then Some (s\<lparr>hpc := (hpc s)(h := HReturned)\<rparr>) else None
      | HReturned \<Rightarrow> None)"

text \<open>
  One goroutine of \<open>Brute\<close>. The send on the unbuffered channel happens only
  together with a receive of \<open>SSHBruteForce\<close>, which then appends the result to
  \<open>successfulHosts\<close> if it is a success and increments its loop index.
  A panic of the dial leaves \<open>SSHLogin\<close> at once, and the deferred calls run
  while it unwinds, like after a return, with the other goroutines still
  running. No goroutine recovers from a panic: when the deferred calls of the
  panicking goroutine have run, the panic leaves the goroutine's function and
  ends the program. \<open>wg.Done()\<close> on a zero counter and \<open>Release\<close> of a slot
  that is not held panic too; lemma \<open>own_panics_impossible\<close> shows that
  neither ever happens.
\<close>

definition trial_step :: "job \<Rightarrow> nat \<Rightarrow> nat \<Rightarrow> state \<Rightarrow> state option" where
  "trial_step J h j s =
     (case tpc s h j of
        None \<Rightarrow> None
      | Some k \<Rightarrow>
          if k < length (trial_prog J h j)
          then (case trial_prog J h j ! k of
                  Eff e \<Rightarrow>
                    (case e of
                       ESend r \<Rightarrow>
                         (case mpc s of
                            MRecv i \<Rightarrow>
                              if i < length (jhosts J)
                              then Some (s\<lparr>tpc := (tpc s)(h := (tpc s h)(j := Some (k + 1))),
                                           trace := trace s @ [(h, j, e)],
                                           successfulHosts :=
                                             (if Success r then successfulHosts s @ [r]
                                              else successfulHosts s),
                                           mpc := MRecv (i + 1)\<rparr>)
                              else None
                          | _ \<Rightarrow> None)
                     | _ \<Rightarrow>
                         Some (s\<lparr>tpc := (tpc s)(h := (tpc s h)(j := Some (k + 1))),
                                 trace := trace s @ [(h, j, e)]\<rparr>))
                | WgDone \<Rightarrow>
                    if wg s h = 0 then Some (s\<lparr>panicked := True\<rparr>)
                    else Some (s\<lparr>tpc := (tpc s)(h := (tpc s h)(j := Some (k + 1))),
                                 wg := (wg s)(h := wg s h - 1)\<rparr>)
                | Release \<Rightarrow>
                    if sem s h = 0 then Some (s\<lparr>panicked := True\<rparr>)
                    else Some (s\<lparr>tpc := (tpc s)(h := (tpc s h)(j := Some (k + 1))),
                                 sem := (sem s)(h := sem s h - 1)\<rparr>))
          else if EPanic \<in> set (login_of J h j) then Some (s\<lparr>panicked := True\<rparr>)
          else None)"

text \<open>When a panic has ended the program, no goroutine moves.\<close>

definition step :: "job \<Rightarrow> action \<Rightarrow> state \<Rightarrow> state option" where
  "step J a s =
     (if panicked s then None
      else (case a of
              AMain \<Rightarrow> main_step J s
            | AHost h \<Rightarrow> host_step J h s
            | ATrial h j \<Rightarrow> trial_step J h j s))"

text \<open>
  Running a schedule: the list of the scheduler's choices. A choice of a
  goroutine that cannot move makes the schedule impossible (\<open>None\<close>).
\<close>

fun exec :: "job \<Rightarrow> action list \<Rightarrow> state \<Rightarrow> state option" where
  "exec J [] s = Some s"
| "exec J (a # as) s = (case step J a s of None \<Rightarrow> None | Some s' \<Rightarrow> exec J as s')"

text \<open>
  \<open>SSHBruteForce\<close> under a schedule: its return value \<open>successfulHosts\<close> if the
  schedule brings it to its \<open>return\<close>, together with the effects its goroutines
  have performed by the end of the schedule; \<open>None\<close> if it has not returned by
  then.
\<close>

definition SSHBruteForce :: "env \<Rightarrow> action list \<Rightarrow> string list \<Rightarrow> int \<Rightarrow> Credential list \<Rightarrow> bool
    \<Rightarrow> (SSHResult list \<times> (nat \<times> nat \<times> effect) list) option" where
  "SSHBruteForce e sched hosts port creds debug =
     (case exec \<lparr>jenv = e, jhosts = hosts, jport = port, jcreds = creds, jdebug = debug\<rparr> sched init of
        None \<Rightarrow> None
      | Some s \<Rightarrow> if mpc s = MReturned then Some (successfulHosts s, trace s) else None)"

section \<open>The task handler \<open>Run\<close>\<close>

text \<open>
  \<open>structs.Task\<close> and \<open>structs.ThreadMsg\<close> are declared in another package;
  \<open>Run\<close> reads \<open>task.Params\<close> and writes the three fields of the message below.
\<close>

record Task =
  Params :: string

record ThreadMsg =
  TaskItem :: Task
  TaskResult :: string
  Error :: bool

text \<open>
  The loop over \<open>params.Hosts\<close>: an entry that \<open>portscan.NewCIDR\<close> rejects is
  skipped, and the names of the hosts of every other entry are appended in order.
\<close>

fun totalHosts_of :: "env \<Rightarrow> string list \<Rightarrow> string list" where
  "totalHosts_of e [] = []"
| "totalHosts_of e (h # hs) =
     (case NewCIDR e h of
        Inl err \<Rightarrow> totalHosts_of e hs
      | Inr cidr_hosts \<Rightarrow> cidr_hosts @ totalHosts_of e hs)"

text \<open>
  What a call of \<open>Run\<close> has done when it returns: the lines given to
  \<open>log.Println\<close>, the effects of the goroutines of \<open>SSHBruteForce\<close> (empty when
  it was not called), and the messages sent on \<open>threadChannel\<close>. After the
  checks of the parameters the only send of \<open>Run\<close> is its last statement, so
  \<open>None\<close>, for a call of \<open>SSHBruteForce\<close> that has not returned, is a \<open>Run\<close>
  that has sent nothing.
\<close>

record run_out =
  logged :: "string list"
  attempts :: "(nat \<times> nat \<times> effect) list"
  sent :: "ThreadMsg list"

definition Run :: "env \<Rightarrow> action list \<Rightarrow> Task \<Rightarrow> run_out option" where
  "Run e sched task =
     (let tMsg = \<lparr>TaskItem = task, TaskResult = [], Error = False\<rparr>
      in case Unmarshal e (Params task) of
           Inl err \<Rightarrow>
             Some \<lparr>logged = [''Error unmarshalling params: '' @ err], attempts = [],
                   sent = [tMsg\<lparr>TaskResult := err, Error := True\<rparr>]\<rparr>
         | Inr params \<Rightarrow>
             if length (Hosts params) = 0
             then Some \<lparr>logged = [], attempts = [],
                        sent = [tMsg\<lparr>TaskResult := ''Error: No host or list of hosts given.'',
                                     Error := True\<rparr>]\<rparr>
             else if SSHTestParams.Password params = [] \<and> SSHTestParams.PrivateKey params = []
             then Some \<lparr>logged = [], attempts = [],
                        sent = [tMsg\<lparr>TaskResult :=
                                       ''Error: No password or private key given to attempt authentication with.'',
                                     Error := True\<rparr>]\<rparr>
             else if SSHTestParams.Username params = []
             then Some \<lparr>logged = [], attempts = [],
                        sent = [tMsg\<lparr>TaskResult :=
                                       ''Error: No username given to attempt authentication with.'',
                                     Error := True\<rparr>]\<rparr>
             else
               (let totalHosts = totalHosts_of e (Hosts params);
                    params = (if Port params = 0 then params\<lparr>Port := 22\<rparr> else params);
                    cred = \<lparr>Credential.Username = SSHTestParams.Username params,
                            Credential.Password = SSHTestParams.Password params,
                            Credential.PrivateKey = SSHTestParams.PrivateKey params\<rparr>
                in case SSHBruteForce e sched totalHosts (Port params) [cred] False of
                     None \<Rightarrow> None
                   | Some (results, tr) \<Rightarrow>
                       if length results > 0
                       then (case MarshalIndent e results [] ''    '' of
                               Inl err \<Rightarrow>
                                 Some \<lparr>logged = [''Error was not nil when marshalling! '' @ err],
                                       attempts = tr,
                                       sent = [tMsg\<lparr>TaskResult := err, Error := True\<rparr>]\<rparr>
                             | Inr data \<Rightarrow>
                                 Some \<lparr>logged = [], attempts = tr,
                                       sent = [tMsg\<lparr>TaskResult := data, Error := False\<rparr>]\<rparr>)
                       else Some \<lparr>logged = [], attempts = tr,
                                  sent = [tMsg\<lparr>TaskResult :=
                                                 ''[-] No successful authentication attempts.'',
                                               Error := False\<rparr>]\<rparr>))"

section \<open>Observations and invariants of the goroutine model\<close>

text \<open>
  The results received on \<open>sshResultChan\<close> so far, and the effects performed so
  far by the goroutine for credential \<open>j\<close> of host \<open>h\<close>.
\<close>

definition received :: "state \<Rightarrow> SSHResult list" where
  "received s = sends (map (\<lambda>x. snd (snd x)) (trace s))"

definition effects_of :: "nat \<Rightarrow> nat \<Rightarrow> (nat \<times> nat \<times> effect) list \<Rightarrow> effect list" where
  "effects_of h j tr = map (\<lambda>x. snd (snd x)) (filter (\<lambda>x. fst x = h \<and> fst (snd x) = j) tr)"

text \<open>
  A goroutine of \<open>Brute\<close> is in flight from its \<open>go\<close> statement until its deferred
  \<open>Release\<close> has run: it is inside \<open>SSHLogin\<close> or in its deferred calls, and it
  holds a slot of the semaphore. \<open>in_flight J s h\<close> counts them for host \<open>h\<close>.
\<close>

definition holds_slot :: "job \<Rightarrow> nat \<Rightarrow> nat \<Rightarrow> nat option \<Rightarrow> bool" where
  "holds_slot J h j t = (case t of None \<Rightarrow> False | Some k \<Rightarrow> k < length (trial_prog J h j))"

definition slots :: "job \<Rightarrow> nat \<Rightarrow> (nat \<Rightarrow> nat option) \<Rightarrow> nat" where
  "slots J h t = length (filter (\<lambda>j. holds_slot J h j (t j)) [0..<length (jcreds J)])"

definition in_flight :: "job \<Rightarrow> state \<Rightarrow> nat \<Rightarrow> nat" where
  "in_flight J s h = slots J h (tpc s h)"

text \<open>The goroutines that \<open>wg.Wait()\<close> still waits for: started, \<open>wg.Done()\<close> not yet run.\<close>

definition not_done :: "job \<Rightarrow> nat \<Rightarrow> nat \<Rightarrow> nat option \<Rightarrow> bool" where
  "not_done J h j t = (case t of None \<Rightarrow> False | Some k \<Rightarrow> k \<le> length (login_of J h j))"

definition waits :: "job \<Rightarrow> nat \<Rightarrow> (nat \<Rightarrow> nat option) \<Rightarrow> nat" where
  "waits J h t = length (filter (\<lambda>j. not_done J h j (t j)) [0..<length (jcreds J)])"

text \<open>
  Between \<open>Acquire\<close> and the \<open>go\<close> statement \<open>Brute\<close> holds a slot for the
  goroutine it is about to start; between \<open>wg.Add(1)\<close> and the \<open>go\<close> statement
  the wait group counts it already.
\<close>

definition pend_sem :: "hostpc \<Rightarrow> nat" where
  "pend_sem p = (case p of HAdd i \<Rightarrow> 1 | HGo i \<Rightarrow> 1 | _ \<Rightarrow> 0)"

definition pend_wg :: "hostpc \<Rightarrow> nat" where
  "pend_wg p = (case p of HGo i \<Rightarrow> 1 | _ \<Rightarrow> 0)"

definition launched_upto :: "(nat \<Rightarrow> nat option) \<Rightarrow> nat \<Rightarrow> bool" where
  "launched_upto t i = (\<forall>j. t j \<noteq> None \<longleftrightarrow> j < i)"

definition pc_ok :: "job \<Rightarrow> nat \<Rightarrow> hostpc \<Rightarrow> (nat \<Rightarrow> nat option) \<Rightarrow> bool" where
  "pc_ok J h p t =
     (case p of
         NotStarted \<Rightarrow> launched_upto t 0
       | HLoop i \<Rightarrow> i \<le> length (jcreds J) \<and> launched_upto t i
       | HAdd i \<Rightarrow> i < length (jcreds J) \<and> launched_upto t i
       | HGo i \<Rightarrow> i < length (jcreds J) \<and> launched_upto t i
       | HWait \<Rightarrow> launched_upto t (length (jcreds J))
       | HReturned \<Rightarrow> launched_upto t (length (jcreds J)) \<and>
                      (\<forall>j < length (jcreds J). \<not> not_done J h j (t j)))"

definition host_ok :: "job \<Rightarrow> nat \<Rightarrow> hostpc \<Rightarrow> (nat \<Rightarrow> nat option) \<Rightarrow> nat \<Rightarrow> nat \<Rightarrow> bool" where
  "host_ok J h p t se w =
     (pc_ok J h p t \<and> se = slots J h t + pend_sem p \<and> w = waits J h t + pend_wg p \<and> se \<le> lim)"

definition started_upto :: "(nat \<Rightarrow> hostpc) \<Rightarrow> nat \<Rightarrow> bool" where
  "started_upto p i = (\<forall>h. p h \<noteq> NotStarted \<longleftrightarrow> h < i)"

definition main_ok :: "job \<Rightarrow> state \<Rightarrow> bool" where
  "main_ok J s =
     (case mpc s of
        MSpawn i \<Rightarrow> i \<le> length (jhosts J) \<and> started_upto (hpc s) i
      | MRecv i \<Rightarrow> started_upto (hpc s) (length (jhosts J))
      | MReturned \<Rightarrow> started_upto (hpc s) (length (jhosts J)))"

definition sync_inv :: "job \<Rightarrow> state \<Rightarrow> bool" where
  "sync_inv J s = (main_ok J s \<and>
              (\<forall>h. host_ok J h (hpc s h) (tpc s h) (sem s h) (wg s h)))"

text \<open>A job in which no dial panics.\<close>

definition no_panic :: "job \<Rightarrow> bool" where
  "no_panic J =
     (\<forall>h<length (jhosts J). \<forall>j<length (jcreds J). EPanic \<notin> set (login_of J h j))"

definition trace_ok :: "job \<Rightarrow> state \<Rightarrow> bool" where
  "trace_ok J s =
     (\<forall>h j. effects_of h j (trace s) =
             (case tpc s h j of None \<Rightarrow> [] | Some k \<Rightarrow> take k (login_of J h j)))"

definition job_inv :: "job \<Rightarrow> state \<Rightarrow> bool" where
  "job_inv J s = (sync_inv J s \<and> trace_ok J s)"

text \<open>
  The goroutines that have completed their send (they have left \<open>SSHLogin\<close>, and
  not by a panic), per host and in all; the number of receives that
  \<open>SSHBruteForce\<close> has made at each point of its program.
\<close>

definition past_send :: "job \<Rightarrow> nat \<Rightarrow> nat \<Rightarrow> nat option \<Rightarrow> bool" where
  "past_send J h j t =
     (case t of None \<Rightarrow> False
      | Some k \<Rightarrow> length (login_of J h j) \<le> k \<and> sends (login_of J h j) \<noteq> [])"

definition sent_by :: "job \<Rightarrow> nat \<Rightarrow> (nat \<Rightarrow> nat option) \<Rightarrow> nat" where
  "sent_by J h t = length (filter (\<lambda>j. past_send J h j (t j)) [0..<length (jcreds J)])"

definition total_sent :: "job \<Rightarrow> (nat \<Rightarrow> nat \<Rightarrow> nat option) \<Rightarrow> nat" where
  "total_sent J T = sum_list (map (\<lambda>h. sent_by J h (T h)) [0..<length (jhosts J)])"

definition expected :: "job \<Rightarrow> mainpc \<Rightarrow> nat" where
  "expected J p = (case p of MSpawn i \<Rightarrow> 0 | MRecv i \<Rightarrow> i | MReturned \<Rightarrow> length (jhosts J))"

definition recv_ok :: "job \<Rightarrow> state \<Rightarrow> bool" where
  "recv_ok J s =
     (total_sent J (tpc s) = expected J (mpc s) \<and> length (received s) = expected J (mpc s) \<and>
      expected J (mpc s) \<le> length (jhosts J) \<and>
      successfulHosts s = filter Success (received s))"

text \<open>All invariants together.\<close>

definition full_inv :: "job \<Rightarrow> state \<Rightarrow> bool" where
  "full_inv J s = (job_inv J s \<and> recv_ok J s)"

text \<open>
  The number of steps that the goroutines of a job can still take, and one for
  the end of the program by a panic: every step uses up one.
\<close>

definition trial_rem :: "job \<Rightarrow> nat \<Rightarrow> nat \<Rightarrow> nat option \<Rightarrow> nat" where
  "trial_rem J h j t =
     (case t of None \<Rightarrow> length (trial_prog J h j) | Some k \<Rightarrow> length (trial_prog J h j) - k)"

definition trials_rem :: "job \<Rightarrow> nat \<Rightarrow> (nat \<Rightarrow> nat option) \<Rightarrow> nat" where
  "trials_rem J h t = sum_list (map (\<lambda>j. trial_rem J h j (t j)) [0..<length (jcreds J)])"

definition host_rem :: "job \<Rightarrow> hostpc \<Rightarrow> nat" where
  "host_rem J p =
     (case p of
        NotStarted \<Rightarrow> 3 * length (jcreds J) + 2
      | HLoop i \<Rightarrow> 3 * (length (jcreds J) - i) + 2
      | HAdd i \<Rightarrow> 3 * (length (jcreds J) - i) + 1
      | HGo i \<Rightarrow> 3 * (length (jcreds J) - i)
      | HWait \<Rightarrow> 1
      | HReturned \<Rightarrow> 0)"

definition main_rem :: "job \<Rightarrow> mainpc \<Rightarrow> nat" where
  "main_rem J p =
     (case p of MSpawn i \<Rightarrow> (length (jhosts J) - i) + 2 | MRecv i \<Rightarrow> 1 | MReturned \<Rightarrow> 0)"

definition hosts_rem :: "job \<Rightarrow> (nat \<Rightarrow> hostpc) \<Rightarrow> nat" where
  "hosts_rem J P = sum_list (map (\<lambda>h. host_rem J (P h)) [0..<length (jhosts J)])"

definition all_trials_rem :: "job \<Rightarrow> (nat \<Rightarrow> nat \<Rightarrow> nat option) \<Rightarrow> nat" where
  "all_trials_rem J T = sum_list (map (\<lambda>h. trials_rem J h (T h)) [0..<length (jhosts J)])"

definition steps_left :: "job \<Rightarrow> state \<Rightarrow> nat" where
  "steps_left J s = main_rem J (mpc s) + hosts_rem J (hpc s) + all_trials_rem J (tpc s) +
                    (if panicked s then 0 else 1)"

section \<open>Concrete inputs\<close>

text \<open>
  An environment with one reachable server, \<open>10.0.0.1:22\<close>, that asks for
  authentication and accepts the password \<open>toor\<close> and the key stored in
  \<open>/root/.ssh/id_rsa\<close>; every other dial times out. No other key file exists.
\<close>

definition demo_render :: "SSHResult list \<Rightarrow> string" where
  "demo_render rs =
     ''['' @ concat (map (\<lambda>r. ''{status: '' @ Status r @ '', success: ''
                               @ (if Success r then ''true'' else ''false'')
                               @ '', username: '' @ SSHResult.Username r
                               @ '', secret: '' @ Secret r @ '', host: '' @ Host r @ ''}'') rs) @ '']''"

definition demo_params :: SSHTestParams where
  "demo_params = \<lparr>Hosts = [''10.0.0.1'', ''10.0.0.2''], Port = 0,
                   SSHTestParams.Username = ''root'', SSHTestParams.Password = ''toor'',
                   SSHTestParams.PrivateKey = []\<rparr>"

text \<open>
  The tasks that this environment knows, and one that is cut short.
  \<open>task_badkey\<close> is a valid task that names a key file that does not exist.
\<close>

definition task_demo :: Task where
  \<open>task_demo =
     \<lparr>Params = ''{"hosts":["10.0.0.1","10.0.0.2"],"username":"root","password":"toor"}''\<rparr>\<close>

definition task_nohosts :: Task where
  \<open>task_nohosts = \<lparr>Params = ''{"username":"root","password":"toor"}''\<rparr>\<close>

definition task_nosecret :: Task where
  \<open>task_nosecret = \<lparr>Params = ''{"hosts":["10.0.0.1","10.0.0.2"],"username":"root"}''\<rparr>\<close>

definition task_nouser :: Task where
  \<open>task_nouser = \<lparr>Params = ''{"hosts":["10.0.0.1","10.0.0.2"],"password":"toor"}''\<rparr>\<close>

definition task_unreachable :: Task where
  \<open>task_unreachable =
     \<lparr>Params = ''{"hosts":["10.0.0.2"],"port":2222,"username":"root","password":"toor"}''\<rparr>\<close>

definition task_badkey :: Task where
  \<open>task_badkey =
     \<lparr>Params = ''{"hosts":["10.0.0.1"],"username":"root","password":"toor","private_key":"/no/such/key"}''\<rparr>\<close>

definition task_garbage :: Task where
  \<open>task_garbage = \<lparr>Params = ''{"hosts":["10.0.0.1"''\<rparr>\<close>

definition env_demo :: env where
  "env_demo =
     \<lparr>ReadFile = (\<lambda>f. if f = ''/root/.ssh/id_rsa'' then Inr ''KEYDATA''
                       else Inl ''open: no such file or directory''),
      ParsePrivateKey = (\<lambda>b. if b = ''KEYDATA'' then Inr (Signer b) else Inl ''ssh: no key found''),
      AsksForAuth = (\<lambda>n a. a = ''10.0.0.1:22''),
      Dial = (\<lambda>n a c. if a = ''10.0.0.1:22'' \<and>
                          (Auth c = [Some (PasswordAuth ''toor'')] \<or>
                           Auth c = [Some (PublicKeys (Signer ''KEYDATA''))])
                       then Inr (Client 1) else Inl ''dial tcp: i/o timeout''),
      NewSession = (\<lambda>c. Inr (Session 1)),
      Unmarshal = (\<lambda>s. if s = Params task_demo then Inr demo_params
                        else if s = Params task_nohosts then Inr (demo_params\<lparr>Hosts := []\<rparr>)
                        else if s = Params task_nosecret
                        then Inr (demo_params\<lparr>SSHTestParams.Password := []\<rparr>)
                        else if s = Params task_nouser
                        then Inr (demo_params\<lparr>SSHTestParams.Username := []\<rparr>)
                        else if s = Params task_unreachable
                        then Inr (demo_params\<lparr>Hosts := [''10.0.0.2''], Port := 2222\<rparr>)
                        else if s = Params task_badkey
                        then Inr (demo_params\<lparr>Hosts := [''10.0.0.1''],
                                               SSHTestParams.PrivateKey := ''/no/such/key''\<rparr>)
                        else Inl ''unexpected end of JSON input''),
      NewCIDR = (\<lambda>s. if s = [] then Inl ''invalid CIDR address'' else Inr [s]),
      MarshalIndent = (\<lambda>rs p i. Inr (demo_render rs))\<rparr>"

definition cred_a :: Credential where
  "cred_a = \<lparr>Credential.Username = ''root'', Credential.Password = ''toor'',
             Credential.PrivateKey = []\<rparr>"

definition cred_b :: Credential where
  "cred_b = \<lparr>Credential.Username = ''root'', Credential.Password = ''12345'',
             Credential.PrivateKey = []\<rparr>"

definition cred_key :: Credential where
  "cred_key = \<lparr>Credential.Username = ''root'', Credential.Password = ''12345'',
               Credential.PrivateKey = ''/root/.ssh/id_rsa''\<rparr>"

definition cred_nokey :: Credential where
  "cred_nokey = \<lparr>Credential.Username = ''root'', Credential.Password = ''toor'',
                 Credential.PrivateKey = ''/no/such/key''\<rparr>"

text \<open>
  Two hosts and two credentials. Under \<open>sched_launch\<close> the first host has
  started both of its goroutines; under \<open>sched_host0\<close> \<open>Brute\<close> for the first
  host has returned; \<open>sched22\<close> goes on until \<open>SSHBruteForce\<close> has returned and
  nothing can move any more.
\<close>

definition job22 :: job where
  "job22 = \<lparr>jenv = env_demo, jhosts = [''10.0.0.1'', ''10.0.0.2''], jport = 22,
            jcreds = [cred_a, cred_b], jdebug = False\<rparr>"

definition sched_launch :: "action list" where
  "sched_launch = [AMain, AMain, AMain, AHost 0, AHost 0, AHost 0, AHost 0, AHost 0, AHost 0]"

definition sched_host0 :: "action list" where
  "sched_host0 =
     [AMain, AMain, AMain,
      AHost 0, AHost 0, AHost 0, AHost 0, AHost 0, AHost 0, AHost 0,
      ATrial 0 0, ATrial 0 0, ATrial 0 0, ATrial 0 0, ATrial 0 0, ATrial 0 0,
      ATrial 0 1, ATrial 0 1, ATrial 0 1, ATrial 0 1,
      AHost 0]"

definition sched22 :: "action list" where
  "sched22 =
     [AMain, AMain, AMain,
      AHost 0, AHost 0, AHost 0, AHost 0, AHost 0, AHost 0, AHost 0,
      ATrial 0 0, ATrial 0 0, ATrial 0 0, ATrial 0 0, ATrial 0 0, ATrial 0 0,
      ATrial 0 1, ATrial 0 1, ATrial 0 1, ATrial 0 1,
      AHost 0,
      AMain,
      AHost 1, AHost 1, AHost 1, AHost 1, AHost 1, AHost 1, AHost 1,
      ATrial 1 0, ATrial 1 1]"

text \<open>Schedules for the tasks \<open>demo\<close> (two hosts) and \<open>unreachable\<close> (one host).\<close>

definition sched_demo :: "action list" where
  "sched_demo =
     [AMain, AMain, AMain,
      AHost 0, AHost 0, AHost 0, AHost 0,
      ATrial 0 0, ATrial 0 0, ATrial 0 0, ATrial 0 0, ATrial 0 0, ATrial 0 0,
      AHost 0,
      AHost 1, AHost 1, AHost 1, AHost 1,
      ATrial 1 0, ATrial 1 0, ATrial 1 0, ATrial 1 0,
      AHost 1,
      AMain]"

definition sched_one :: "action list" where
  "sched_one =
     [AMain, AMain,
      AHost 0, AHost 0, AHost 0, AHost 0,
      ATrial 0 0, ATrial 0 0, ATrial 0 0, ATrial 0 0,
      AHost 0,
      AMain]"

text \<open>The jobs that \<open>Run\<close> starts for these two tasks, and what their goroutines do.\<close>

definition job_demo :: job where
  "job_demo = \<lparr>jenv = env_demo, jhosts = [''10.0.0.1'', ''10.0.0.2''], jport = 22,
               jcreds = [cred_a], jdebug = False\<rparr>"

definition job_one :: job where
  "job_one = \<lparr>jenv = env_demo, jhosts = [''10.0.0.2''], jport = 2222,
              jcreds = [cred_a], jdebug = False\<rparr>"

definition res_ok :: SSHResult where
  "res_ok = \<lparr>Status = [], Success = True, Username = ''root'', Secret = ''toor'', Host = ''10.0.0.1''\<rparr>"

definition cfg_a :: ClientConfig where
  "cfg_a = \<lparr>User = ''root'', HostKeyCallback = InsecureIgnoreHostKey, Timeout = 500,
             Auth = [Some (PasswordAuth ''toor'')]\<rparr>"

definition trace_demo :: "(nat \<times> nat \<times> effect) list" where
  "trace_demo =
     [(0, 0, EDial ''tcp'' ''10.0.0.1:22'' cfg_a),
      (0, 0, ENewSession (Client 1)), (0, 0, EClose (Session 1)), (0, 0, ESend res_ok),
      (1, 0, EDial ''tcp'' ''10.0.0.2:22'' cfg_a),
      (1, 0, ESend (res_ok\<lparr>Success := False, Host := ''10.0.0.2''\<rparr>))]"

definition trace_one :: "(nat \<times> nat \<times> effect) list" where
  "trace_one =
     [(0, 0, EDial ''tcp'' ''10.0.0.2:2222'' cfg_a),
      (0, 0, ESend (res_ok\<lparr>Success := False, Host := ''10.0.0.2''\<rparr>))]"

text \<open>
  One host, the server that asks for authentication, and one credential whose
  key file cannot be read. Under \<open>sched_unwind\<close> the goroutine of the credential
  has panicked in the dial and has run its deferred \<open>wg.Done()\<close>, and \<open>Brute\<close>
  has returned from \<open>wg.Wait()\<close>; \<open>sched_crash\<close> goes on with the deferred
  \<open>Release\<close> and the end of the program.
\<close>

definition job_nokey :: job where
  "job_nokey = \<lparr>jenv = env_demo, jhosts = [''10.0.0.1''], jport = 22,
                jcreds = [cred_nokey], jdebug = False\<rparr>"

definition cfg_nil :: ClientConfig where
  "cfg_nil = \<lparr>User = ''root'', HostKeyCallback = InsecureIgnoreHostKey, Timeout = 500,
               Auth = [None]\<rparr>"

definition sched_unwind :: "action list" where
  "sched_unwind =
     [AMain, AMain,
      AHost 0, AHost 0, AHost 0, AHost 0,
      ATrial 0 0, ATrial 0 0, ATrial 0 0, ATrial 0 0,
      AHost 0]"

definition sched_crash :: "action list" where
  "sched_crash = sched_unwind @ [ATrial 0 0, ATrial 0 0]"

section \<open>Properties of a single attempt\<close>

lemma sends_append: "sends (xs @ ys) = sends xs @ sends ys"
  by (induction xs rule: sends.induct) simp_all

lemma dials_append: "dials (xs @ ys) = dials xs @ dials ys"
  by (induction xs rule: dials.induct) simp_all

lemma show_int_22: "show_int 22 = ''22''"
  by code_simp

text \<open>
  The dial panics exactly when the credential names a key file that
  \<open>PublicKeyFile\<close> could not turn into a method and the server asks for
  authentication. With a password alone it never panics.
\<close>

lemma ssh_Dial_panic_iff:
  "ssh_Dial e n a (sshConfig_of e cred) = DialPanic \<longleftrightarrow>
     Credential.PrivateKey cred \<noteq> [] \<and> PublicKeyFile e (Credential.PrivateKey cred) = None \<and>
     AsksForAuth e n a"
  by (auto simp: ssh_Dial_def sshConfig_of_def split: sum.splits)

text \<open>
  The outcomes of \<open>SSHLogin\<close>. When the dial returns, \<open>SSHLogin\<close> sends exactly
  one result, as its last effect: a failed dial gives \<open>Success = false\<close> with
  empty \<open>Status\<close>; a failed \<open>NewSession\<close> after a successful dial gives
  \<open>Success = false\<close> with the error text as \<open>Status\<close>; an established session
  gives \<open>Success = true\<close>. When the dial panics, \<open>SSHLogin\<close> sends nothing.
\<close>

lemma SSHLogin_outcomes:
  "(case ssh_Dial e ''tcp'' (host @ '':'' @ show_int port) (sshConfig_of e cred) of
      DialPanic \<Rightarrow> sends (SSHLogin e host port cred debug) = [] \<and>
                   last (SSHLogin e host port cred debug) = EPanic
    | DialErr err \<Rightarrow>
        length (sends (SSHLogin e host port cred debug)) = 1 \<and>
        last (SSHLogin e host port cred debug) = ESend (hd (sends (SSHLogin e host port cred debug))) \<and>
        map Success (sends (SSHLogin e host port cred debug)) = [False] \<and>
        map Status (sends (SSHLogin e host port cred debug)) = [[]]
    | DialOk connection \<Rightarrow>
        length (sends (SSHLogin e host port cred debug)) = 1 \<and>
        last (SSHLogin e host port cred debug) = ESend (hd (sends (SSHLogin e host port cred debug))) \<and>
        (case NewSession e connection of
           Inl err \<Rightarrow> map Success (sends (SSHLogin e host port cred debug)) = [False] \<and>
                      map Status (sends (SSHLogin e host port cred debug)) = [err]
         | Inr session \<Rightarrow> map Success (sends (SSHLogin e host port cred debug)) = [True]))"
  by (simp add: SSHLogin_def Let_def sends_append split: sum.splits dial_result.splits)

lemma login_sends_count:
  "length (sends (SSHLogin e host port cred debug)) =
     (if EPanic \<in> set (SSHLogin e host port cred debug) then 0 else 1)"
  by (simp add: SSHLogin_def Let_def sends_append split: sum.splits dial_result.splits)

lemma login_panic_iff_dial:
  "EPanic \<in> set (SSHLogin e host port cred debug) \<longleftrightarrow>
   ssh_Dial e ''tcp'' (host @ '':'' @ show_int port) (sshConfig_of e cred) = DialPanic"
  by (simp add: SSHLogin_def Let_def split: sum.splits dial_result.splits)

text \<open>
  C2. A credential can name a key file that cannot be read. \<open>PublicKeyFile\<close>
  then returns \<open>nil\<close>, and \<open>SSHLogin\<close> puts the \<open>nil\<close> into the authentication list
  and dials. The server of \<open>env_demo\<close> asks for authentication, so the dial
  panics: \<open>SSHLogin\<close> sends no result, and what leaves it is the panic.
\<close>

theorem SSHLogin_unreadable_key_panics:
  "PublicKeyFile env_demo (Credential.PrivateKey cred_nokey) = None \<and>
   ssh_Dial env_demo ''tcp'' ''10.0.0.1:22'' cfg_nil = DialPanic \<and>
   SSHLogin env_demo ''10.0.0.1'' 22 cred_nokey False =
     [EReadFile ''/no/such/key'', EDial ''tcp'' ''10.0.0.1:22'' cfg_nil, EPanic] \<and>
   sends (SSHLogin env_demo ''10.0.0.1'' 22 cred_nokey False) = []"
  by (simp add: SSHLogin_def sshConfig_of_def PublicKeyFile_def ssh_Dial_def env_demo_def
      cred_nokey_def cfg_nil_def show_int_22)

text \<open>
  C3. \<open>SSHLogin\<close> dials once, with a configuration whose authentication list
  holds the key method alone when \<open>PrivateKey\<close> is non-empty (no password method
  is in it) and the password method alone when \<open>PrivateKey\<close> is empty. The
  \<open>Secret\<close> of the result is the \<open>PrivateKey\<close> in the first case and the
  \<open>Password\<close> in the second; \<open>Username\<close> and \<open>Host\<close> of the result are the
  credential's user name and the host. With a password there always is a
  result; with a key there is one unless the dial panics.
\<close>

theorem SSHLogin_credential_preference:
  "dials (SSHLogin e host port cred debug) =
     [(''tcp'', host @ '':'' @ show_int port, sshConfig_of e cred)] \<and>
   (Credential.PrivateKey cred \<noteq> [] \<longrightarrow>
      Auth (sshConfig_of e cred) = [PublicKeyFile e (Credential.PrivateKey cred)] \<and>
      (\<forall>pw. Some (PasswordAuth pw) \<notin> set (Auth (sshConfig_of e cred))) \<and>
      map Secret (sends (SSHLogin e host port cred debug)) =
        (if ssh_Dial e ''tcp'' (host @ '':'' @ show_int port) (sshConfig_of e cred) = DialPanic
         then [] else [Credential.PrivateKey cred])) \<and>
   (Credential.PrivateKey cred = [] \<longrightarrow>
      Auth (sshConfig_of e cred) = [Some (PasswordAuth (Credential.Password cred))] \<and>
      map Secret (sends (SSHLogin e host port cred debug)) = [Credential.Password cred]) \<and>
   map SSHResult.Username (sends (SSHLogin e host port cred debug)) =
     (if ssh_Dial e ''tcp'' (host @ '':'' @ show_int port) (sshConfig_of e cred) = DialPanic
      then [] else [Credential.Username cred]) \<and>
   map Host (sends (SSHLogin e host port cred debug)) =
     (if ssh_Dial e ''tcp'' (host @ '':'' @ show_int port) (sshConfig_of e cred) = DialPanic
      then [] else [host])"
  by (simp add: SSHLogin_def Let_def sends_append dials_append sshConfig_of_def PublicKeyFile_def
      ssh_Dial_def split: sum.splits dial_result.splits)

theorem SSHLogin_credential_preference_witness:
  "Credential.PrivateKey cred_key \<noteq> [] \<and> Credential.Password cred_key \<noteq> [] \<and>
   Auth (sshConfig_of env_demo cred_key) = [Some (PublicKeys (Signer ''KEYDATA''))] \<and>
   map Secret (sends (SSHLogin env_demo ''10.0.0.1'' 22 cred_key False)) = [''/root/.ssh/id_rsa''] \<and>
   Credential.PrivateKey cred_a = [] \<and>
   Auth (sshConfig_of env_demo cred_a) = [Some (PasswordAuth ''toor'')] \<and>
   map Secret (sends (SSHLogin env_demo ''10.0.0.1'' 22 cred_a False)) = [''toor'']"
  using SSHLogin_credential_preference [of env_demo "''10.0.0.1''" 22 cred_key False]
    SSHLogin_credential_preference [of env_demo "''10.0.0.1''" 22 cred_a False]
  by (simp add: env_demo_def cred_a_def cred_key_def PublicKeyFile_def ssh_Dial_def)

text \<open>\<open>PublicKeyFile\<close> returns \<open>nil\<close> exactly when the read or the parse fails.\<close>

lemma PublicKeyFile_nil_iff:
  "PublicKeyFile e file = None \<longleftrightarrow>
     (\<exists>err. ReadFile e file = Inl err) \<or>
     (\<exists>buffer err. ReadFile e file = Inr buffer \<and> ParsePrivateKey e buffer = Inl err)"
  by (auto simp: PublicKeyFile_def split: sum.splits)

text \<open>
  When \<open>PrivateKey\<close> is non-empty and \<open>PublicKeyFile\<close> returns \<open>nil\<close>, \<open>SSHLogin\<close>
  does not fall back to the password and builds no condition of its own: it
  dials once, with an authentication list that holds the \<open>nil\<close> method alone.
  It sends no result if the server asks for authentication, and one result,
  whose \<open>Secret\<close> is the \<open>PrivateKey\<close>, otherwise.
\<close>

lemma unreadable_key_dial:
  assumes "Credential.PrivateKey cred \<noteq> []"
    and "PublicKeyFile e (Credential.PrivateKey cred) = None"
  shows "dials (SSHLogin e host port cred debug) =
           [(''tcp'', host @ '':'' @ show_int port,
             \<lparr>User = Credential.Username cred, HostKeyCallback = InsecureIgnoreHostKey,
              Timeout = 500, Auth = [None]\<rparr>)] \<and>
         map Secret (sends (SSHLogin e host port cred debug)) =
           (if AsksForAuth e ''tcp'' (host @ '':'' @ show_int port) then []
            else [Credential.PrivateKey cred])"
  using assms
  by (simp add: SSHLogin_def Let_def sends_append dials_append sshConfig_of_def ssh_Dial_def
      split: sum.splits dial_result.splits)

section \<open>Invariants of the goroutine model\<close>

text \<open>
  Counting the indices below \<open>m\<close> that satisfy a predicate of the local state,
  when the local state of one index changes.
\<close>

lemma count_upd_out:
  "m \<le> j \<Longrightarrow>
   length (filter (\<lambda>x. Q x (if x = j then v else f x)) [0..<m]) = length (filter (\<lambda>x. Q x (f x)) [0..<m])"
  by (induction m) auto

lemma count_upd_same:
  "Q j v = Q j (f j) \<Longrightarrow>
   length (filter (\<lambda>x. Q x (if x = j then v else f x)) [0..<m]) = length (filter (\<lambda>x. Q x (f x)) [0..<m])"
  by (induction m) auto

lemma count_upd_inc:
  "j < m \<Longrightarrow> \<not> Q j (f j) \<Longrightarrow> Q j v \<Longrightarrow>
   length (filter (\<lambda>x. Q x (if x = j then v else f x)) [0..<m]) = Suc (length (filter (\<lambda>x. Q x (f x)) [0..<m]))"
proof (induction m)
  case 0 then show ?case by simp
next
  case (Suc m)
  show ?case
  proof (cases "j < m")
    case True
    with Suc show ?thesis by auto
  next
    case False
    with Suc.prems have "j = m" by simp
    with Suc.prems show ?thesis using count_upd_out[of m m Q v f] by simp
  qed
qed

lemma count_upd_dec:
  "j < m \<Longrightarrow> Q j (f j) \<Longrightarrow> \<not> Q j v \<Longrightarrow>
   Suc (length (filter (\<lambda>x. Q x (if x = j then v else f x)) [0..<m])) = length (filter (\<lambda>x. Q x (f x)) [0..<m])"
proof (induction m)
  case 0 then show ?case by simp
next
  case (Suc m)
  show ?case
  proof (cases "j < m")
    case True
    with Suc show ?thesis by auto
  next
    case False
    with Suc.prems have "j = m" by simp
    with Suc.prems show ?thesis using count_upd_out[of m m Q v f] by simp
  qed
qed

text \<open>
  \<open>SSHLogin\<close> ends with its send or with the panic of the dial, and neither
  occurs before its end.
\<close>

lemma login_shape:
  "\<exists>pre x. SSHLogin e host port cred debug = pre @ [x] \<and> ((\<exists>r. x = ESend r) \<or> x = EPanic) \<and>
     (\<forall>r'. ESend r' \<notin> set pre) \<and> EPanic \<notin> set pre"
  by (auto simp: SSHLogin_def Let_def split: sum.splits dial_result.splits)

lemma length_trial_prog: "length (trial_prog J h j) = length (login_of J h j) + 2"
  by (simp add: trial_prog_def)

lemma trial_prog_nth_login:
  "k < length (login_of J h j) \<Longrightarrow> trial_prog J h j ! k = Eff (login_of J h j ! k)"
  by (simp add: trial_prog_def nth_append)

lemma trial_prog_nth_done: "trial_prog J h j ! (length (login_of J h j)) = WgDone"
  by (simp add: trial_prog_def nth_append)

lemma trial_prog_nth_release: "trial_prog J h j ! Suc (length (login_of J h j)) = Release"
  by (simp add: trial_prog_def nth_append)

lemma slots_same:
  "holds_slot J h j v = holds_slot J h j (t j) \<Longrightarrow> slots J h (t(j := v)) = slots J h t"
  unfolding slots_def fun_upd_apply by (rule count_upd_same)

lemma slots_inc:
  "j < length (jcreds J) \<Longrightarrow> \<not> holds_slot J h j (t j) \<Longrightarrow> holds_slot J h j v \<Longrightarrow>
   slots J h (t(j := v)) = Suc (slots J h t)"
  unfolding slots_def fun_upd_apply by (rule count_upd_inc)

lemma slots_dec:
  "j < length (jcreds J) \<Longrightarrow> holds_slot J h j (t j) \<Longrightarrow> \<not> holds_slot J h j v \<Longrightarrow>
   Suc (slots J h (t(j := v))) = slots J h t"
  unfolding slots_def fun_upd_apply by (rule count_upd_dec)

lemma waits_same:
  "not_done J h j v = not_done J h j (t j) \<Longrightarrow> waits J h (t(j := v)) = waits J h t"
  unfolding waits_def fun_upd_apply by (rule count_upd_same)

lemma waits_inc:
  "j < length (jcreds J) \<Longrightarrow> \<not> not_done J h j (t j) \<Longrightarrow> not_done J h j v \<Longrightarrow>
   waits J h (t(j := v)) = Suc (waits J h t)"
  unfolding waits_def fun_upd_apply by (rule count_upd_inc)

lemma waits_dec:
  "j < length (jcreds J) \<Longrightarrow> not_done J h j (t j) \<Longrightarrow> \<not> not_done J h j v \<Longrightarrow>
   Suc (waits J h (t(j := v))) = waits J h t"
  unfolding waits_def fun_upd_apply by (rule count_upd_dec)

lemma waits_zero: "waits J h t = 0 \<Longrightarrow> j < length (jcreds J) \<Longrightarrow> \<not> not_done J h j (t j)"
  unfolding waits_def by (simp add: filter_empty_conv)

text \<open>
  Every step of \<open>Brute\<close> and of its goroutines keeps \<open>host_ok\<close>: the semaphore
  and the wait group count what they should.
\<close>

lemma host_ok_init: "host_ok J h NotStarted (\<lambda>j. None) 0 0"
  by (simp add: host_ok_def pc_ok_def slots_def waits_def launched_upto_def holds_slot_def
      not_done_def pend_sem_def pend_wg_def)

lemma host_ok_spawn: "host_ok J h NotStarted t se w \<Longrightarrow> host_ok J h (HLoop 0) t se w"
  by (simp add: host_ok_def pc_ok_def pend_sem_def pend_wg_def)

lemma host_ok_acquire:
  "host_ok J h (HLoop i) t se w \<Longrightarrow> i < length (jcreds J) \<Longrightarrow> se + 1 \<le> lim \<Longrightarrow>
   host_ok J h (HAdd i) t (se + 1) w"
  by (simp add: host_ok_def pc_ok_def pend_sem_def pend_wg_def)

lemma host_ok_exit:
  "host_ok J h (HLoop i) t se w \<Longrightarrow> \<not> i < length (jcreds J) \<Longrightarrow> host_ok J h HWait t se w"
  by (auto simp: host_ok_def pc_ok_def pend_sem_def pend_wg_def)

lemma host_ok_add: "host_ok J h (HAdd i) t se w \<Longrightarrow> host_ok J h (HGo i) t se (w + 1)"
  by (simp add: host_ok_def pc_ok_def pend_sem_def pend_wg_def)

lemma host_ok_go:
  assumes "host_ok J h (HGo i) t se w"
  shows "host_ok J h (HLoop (i + 1)) (t(i := Some 0)) se w"
proof -
  from assms have i: "i < length (jcreds J)" and l: "launched_upto t i"
    and se: "se = slots J h t + 1" and w: "w = waits J h t + 1" and "se \<le> lim"
    by (simp_all add: host_ok_def pc_ok_def pend_sem_def pend_wg_def)
  from l have n: "t i = None" by (auto simp: launched_upto_def)
  have l': "launched_upto (t(i := Some 0)) (i + 1)"
    using l by (auto simp: launched_upto_def)
  have a: "slots J h (t(i := Some 0)) = Suc (slots J h t)"
    by (rule slots_inc) (use i n in \<open>simp_all add: holds_slot_def length_trial_prog\<close>)
  have b: "waits J h (t(i := Some 0)) = Suc (waits J h t)"
    by (rule waits_inc) (use i n in \<open>simp_all add: not_done_def\<close>)
  show ?thesis
    using i l' se w \<open>se \<le> lim\<close> a b by (simp add: host_ok_def pc_ok_def pend_sem_def pend_wg_def)
qed

lemma host_ok_wait: "host_ok J h HWait t se 0 \<Longrightarrow> host_ok J h HReturned t se 0"
  by (auto simp: host_ok_def pc_ok_def pend_sem_def pend_wg_def dest: waits_zero)

lemma launched_uptoD: "launched_upto t i \<Longrightarrow> t j = Some k \<Longrightarrow> j < i"
  by (auto simp: launched_upto_def)

lemma host_ok_launched:
  "host_ok J h p t se w \<Longrightarrow> t j = Some k \<Longrightarrow> j < length (jcreds J)"
  by (cases p) (auto simp: host_ok_def pc_ok_def dest: launched_uptoD)

lemma launched_upto_upd:
  "launched_upto t i \<Longrightarrow> t j = Some k \<Longrightarrow> launched_upto (t(j := Some k')) i"
  by (auto simp: launched_upto_def)

lemma pc_ok_upd:
  assumes "pc_ok J h p t" and "t j = Some k"
    and "not_done J h j (Some k) \<or> \<not> not_done J h j (Some k')"
  shows "pc_ok J h p (t(j := Some k'))"
proof (cases p)
  case HReturned
  with assms show ?thesis
    by (auto simp: pc_ok_def launched_upto_def)
qed (use assms in \<open>auto simp: pc_ok_def intro: launched_upto_upd\<close>)

lemma host_ok_trial_login:
  assumes ok: "host_ok J h p t se w" and t: "t j = Some k" and k: "k < length (login_of J h j)"
  shows "host_ok J h p (t(j := Some (k + 1))) se w"
proof -
  have a: "slots J h (t(j := Some (k + 1))) = slots J h t"
    by (rule slots_same) (use t k in \<open>simp add: holds_slot_def length_trial_prog\<close>)
  have b: "waits J h (t(j := Some (k + 1))) = waits J h t"
    by (rule waits_same) (use t k in \<open>simp add: not_done_def\<close>)
  have c: "pc_ok J h p (t(j := Some (k + 1)))"
    by (rule pc_ok_upd[where k=k]) (use ok t k in \<open>simp_all add: host_ok_def not_done_def\<close>)
  show ?thesis
    using ok a b c by (simp add: host_ok_def)
qed

lemma host_ok_trial_done:
  assumes ok: "host_ok J h p t se w" and t: "t j = Some (length (login_of J h j))"
  shows "0 < w \<and> host_ok J h p (t(j := Some (length (login_of J h j) + 1))) se (w - 1)"
proof -
  have j: "j < length (jcreds J)" by (rule host_ok_launched[OF ok t])
  have a: "slots J h (t(j := Some (length (login_of J h j) + 1))) = slots J h t"
    by (rule slots_same) (use t in \<open>simp add: holds_slot_def length_trial_prog\<close>)
  have b: "Suc (waits J h (t(j := Some (length (login_of J h j) + 1)))) = waits J h t"
    by (rule waits_dec) (use t j in \<open>simp_all add: not_done_def\<close>)
  have c: "pc_ok J h p (t(j := Some (length (login_of J h j) + 1)))"
    by (rule pc_ok_upd[where k="length (login_of J h j)"])
       (use ok t in \<open>simp_all add: host_ok_def not_done_def\<close>)
  from ok have w: "w = waits J h t + pend_wg p" and se: "se = slots J h t + pend_sem p"
    and l: "se \<le> lim"
    by (simp_all add: host_ok_def)
  from w b have w0: "0 < w"
    and w1: "w - 1 = waits J h (t(j := Some (length (login_of J h j) + 1))) + pend_wg p"
    by arith+
  from se a have se1: "se = slots J h (t(j := Some (length (login_of J h j) + 1))) + pend_sem p"
    by simp
  from c se1 w1 l have "host_ok J h p (t(j := Some (length (login_of J h j) + 1))) se (w - 1)"
    unfolding host_ok_def by blast
  with w0 show ?thesis by blast
qed

lemma host_ok_trial_release:
  assumes ok: "host_ok J h p t se w" and t: "t j = Some (Suc (length (login_of J h j)))"
  shows "0 < se \<and> host_ok J h p (t(j := Some (Suc (length (login_of J h j)) + 1))) (se - 1) w"
proof -
  have j: "j < length (jcreds J)" by (rule host_ok_launched[OF ok t])
  have a: "Suc (slots J h (t(j := Some (Suc (length (login_of J h j)) + 1)))) = slots J h t"
    by (rule slots_dec) (use t j in \<open>simp_all add: holds_slot_def length_trial_prog\<close>)
  have b: "waits J h (t(j := Some (Suc (length (login_of J h j)) + 1))) = waits J h t"
    by (rule waits_same) (use t in \<open>simp add: not_done_def\<close>)
  have c: "pc_ok J h p (t(j := Some (Suc (length (login_of J h j)) + 1)))"
    by (rule pc_ok_upd[where k="Suc (length (login_of J h j))"])
       (use ok t in \<open>simp_all add: host_ok_def not_done_def\<close>)
  from ok have w: "w = waits J h t + pend_wg p" and se: "se = slots J h t + pend_sem p"
    and l: "se \<le> lim"
    by (simp_all add: host_ok_def)
  from se a l have se0: "0 < se"
    and se1: "se - 1 = slots J h (t(j := Some (Suc (length (login_of J h j)) + 1))) + pend_sem p"
    and l1: "se - 1 \<le> lim"
    by arith+
  from w b have w1: "w = waits J h (t(j := Some (Suc (length (login_of J h j)) + 1))) + pend_wg p"
    by simp
  from c se1 w1 l1 have "host_ok J h p (t(j := Some (Suc (length (login_of J h j)) + 1))) (se - 1) w"
    unfolding host_ok_def by blast
  with se0 show ?thesis by blast
qed

text \<open>The steps of a goroutine of \<open>Brute\<close>, by the position in its program.\<close>

lemma trial_step_cases:
  assumes "trial_step J h j s = Some s'"
  shows "(\<exists>k. tpc s h j = Some k \<and> k < length (login_of J h j) \<and>
           ((\<exists>r i. login_of J h j ! k = ESend r \<and> mpc s = MRecv i \<and> i < length (jhosts J) \<and>
               s' = s\<lparr>tpc := (tpc s)(h := (tpc s h)(j := Some (k + 1))),
                      trace := trace s @ [(h, j, ESend r)],
                      successfulHosts := (if Success r then successfulHosts s @ [r]
                                          else successfulHosts s),
                      mpc := MRecv (i + 1)\<rparr>) \<or>
            ((\<forall>r. login_of J h j ! k \<noteq> ESend r) \<and>
               s' = s\<lparr>tpc := (tpc s)(h := (tpc s h)(j := Some (k + 1))),
                      trace := trace s @ [(h, j, login_of J h j ! k)]\<rparr>)))
       \<or> (tpc s h j = Some (length (login_of J h j)) \<and> wg s h = 0 \<and> s' = s\<lparr>panicked := True\<rparr>)
       \<or> (tpc s h j = Some (length (login_of J h j)) \<and> wg s h \<noteq> 0 \<and>
            s' = s\<lparr>tpc := (tpc s)(h := (tpc s h)(j := Some (length (login_of J h j) + 1))),
                   wg := (wg s)(h := wg s h - 1)\<rparr>)
       \<or> (tpc s h j = Some (Suc (length (login_of J h j))) \<and> sem s h = 0 \<and>
            s' = s\<lparr>panicked := True\<rparr>)
       \<or> (tpc s h j = Some (Suc (length (login_of J h j))) \<and> sem s h \<noteq> 0 \<and>
            s' = s\<lparr>tpc := (tpc s)(h := (tpc s h)(j := Some (Suc (length (login_of J h j)) + 1))),
                   sem := (sem s)(h := sem s h - 1)\<rparr>)
       \<or> (\<exists>k. tpc s h j = Some k \<and> length (login_of J h j) + 2 \<le> k \<and>
            EPanic \<in> set (login_of J h j) \<and> s' = s\<lparr>panicked := True\<rparr>)"
proof -
  from assms obtain k where k: "tpc s h j = Some k"
    by (auto simp: trial_step_def split: option.splits)
  consider "k < length (login_of J h j)" | "k = length (login_of J h j)"
    | "k = Suc (length (login_of J h j))" | "length (login_of J h j) + 2 \<le> k"
    by arith
  then show ?thesis
  proof cases
    case 1
    with assms k show ?thesis
      by (auto simp: trial_step_def length_trial_prog trial_prog_nth_login
          split: effect.splits mainpc.splits if_splits)
  next
    case 2
    with assms k show ?thesis
      by (auto simp: trial_step_def length_trial_prog trial_prog_nth_done split: if_splits)
  next
    case 3
    with assms k show ?thesis
      by (auto simp: trial_step_def length_trial_prog trial_prog_nth_release split: if_splits)
  next
    case 4
    with assms k show ?thesis
      by (auto simp: trial_step_def length_trial_prog split: if_splits)
  qed
qed

lemma init_sync_inv: "sync_inv J init"
  by (simp add: sync_inv_def init_def host_ok_init main_ok_def started_upto_def)

lemma main_step_inv:
  assumes "sync_inv J s" and "main_step J s = Some s'"
  shows "sync_inv J s'"
proof (cases "mpc s")
  case (MSpawn i)
  show ?thesis
  proof (cases "i < length (jhosts J)")
    case True
    with MSpawn assms(2) have s': "s' = s\<lparr>hpc := (hpc s)(i := HLoop 0), mpc := MSpawn (i + 1)\<rparr>"
      by (simp add: main_step_def)
    from assms(1) MSpawn have "hpc s i = NotStarted"
      by (auto simp: sync_inv_def main_ok_def started_upto_def)
    moreover from assms(1) have "host_ok J i (hpc s i) (tpc s i) (sem s i) (wg s i)"
      by (simp add: sync_inv_def)
    ultimately have "host_ok J i NotStarted (tpc s i) (sem s i) (wg s i)"
      by simp
    then have "host_ok J i (HLoop 0) (tpc s i) (sem s i) (wg s i)"
      by (rule host_ok_spawn)
    moreover from assms(1) MSpawn True have "main_ok J s'"
      by (auto simp: s' sync_inv_def main_ok_def started_upto_def less_Suc_eq)
    ultimately show ?thesis
      using assms(1) by (simp add: s' sync_inv_def)
  next
    case False
    with MSpawn assms(2) have s': "s' = s\<lparr>mpc := MRecv 0\<rparr>"
      by (simp add: main_step_def)
    from assms(1) MSpawn False show ?thesis
      by (auto simp: s' sync_inv_def main_ok_def)
  qed
next
  case (MRecv i)
  with assms(2) have s': "s' = s\<lparr>mpc := MReturned\<rparr>"
    by (simp add: main_step_def split: if_splits)
  from assms(1) MRecv show ?thesis
    by (auto simp: s' sync_inv_def main_ok_def)
next
  case MReturned
  with assms(2) show ?thesis by (simp add: main_step_def)
qed

lemma main_ok_cong:
  "mpc s' = mpc s \<Longrightarrow> (\<And>h. (hpc s' h = NotStarted) = (hpc s h = NotStarted)) \<Longrightarrow>
   main_ok J s' = main_ok J s"
  by (simp add: main_ok_def started_upto_def split: mainpc.splits)

lemma host_step_inv:
  assumes "sync_inv J s" and "host_step J h s = Some s'"
  shows "sync_inv J s'"
proof -
  from assms(1) have m: "main_ok J s"
    and ho: "\<And>h'. host_ok J h' (hpc s h') (tpc s h') (sem s h') (wg s h')"
    by (simp_all add: sync_inv_def)
  note ok = ho[of h]
  show ?thesis
  proof (cases "hpc s h")
    case NotStarted
    with assms(2) show ?thesis by (simp add: host_step_def)
  next
    case (HLoop i)
    show ?thesis
    proof (cases "i < length (jcreds J)")
      case True
      with HLoop assms(2) have le: "sem s h + 1 \<le> lim"
        and s': "s' = s\<lparr>sem := (sem s)(h := sem s h + 1), hpc := (hpc s)(h := HAdd i)\<rparr>"
        by (simp_all add: host_step_def split: if_splits)
      have "main_ok J s' = main_ok J s"
        by (rule main_ok_cong) (simp_all add: s' HLoop)
      moreover have "host_ok J h (HAdd i) (tpc s h) (sem s h + 1) (wg s h)"
        using ok True le unfolding HLoop by (rule host_ok_acquire)
      ultimately show ?thesis
        using m ho by (simp add: s' sync_inv_def)
    next
      case False
      with HLoop assms(2) have s': "s' = s\<lparr>hpc := (hpc s)(h := HWait)\<rparr>"
        by (simp add: host_step_def)
      have "main_ok J s' = main_ok J s"
        by (rule main_ok_cong) (simp_all add: s' HLoop)
      moreover have "host_ok J h HWait (tpc s h) (sem s h) (wg s h)"
        using ok False unfolding HLoop by (rule host_ok_exit)
      ultimately show ?thesis
        using m ho by (simp add: s' sync_inv_def)
    qed
  next
    case (HAdd i)
    with assms(2) have s': "s' = s\<lparr>wg := (wg s)(h := wg s h + 1), hpc := (hpc s)(h := HGo i)\<rparr>"
      by (simp add: host_step_def)
    have "main_ok J s' = main_ok J s"
      by (rule main_ok_cong) (simp_all add: s' HAdd)
    moreover have "host_ok J h (HGo i) (tpc s h) (sem s h) (wg s h + 1)"
      using ok unfolding HAdd by (rule host_ok_add)
    ultimately show ?thesis
      using m ho by (simp add: s' sync_inv_def)
  next
    case (HGo i)
    with assms(2) have s': "s' = s\<lparr>tpc := (tpc s)(h := (tpc s h)(i := Some 0)),
                                   hpc := (hpc s)(h := HLoop (i + 1))\<rparr>"
      by (simp add: host_step_def)
    have "main_ok J s' = main_ok J s"
      by (rule main_ok_cong) (simp_all add: s' HGo)
    moreover have "host_ok J h (HLoop (i + 1)) ((tpc s h)(i := Some 0)) (sem s h) (wg s h)"
      using ok unfolding HGo by (rule host_ok_go)
    ultimately show ?thesis
      using m ho by (simp add: s' sync_inv_def)
  next
    case HWait
    with assms(2) have w: "wg s h = 0" and s': "s' = s\<lparr>hpc := (hpc s)(h := HReturned)\<rparr>"
      by (simp_all add: host_step_def split: if_splits)
    have "main_ok J s' = main_ok J s"
      by (rule main_ok_cong) (simp_all add: s' HWait)
    moreover have "host_ok J h HReturned (tpc s h) (sem s h) (wg s h)"
      using ok host_ok_wait[of J h "tpc s h" "sem s h"] unfolding HWait w by simp
    ultimately show ?thesis
      using m ho by (simp add: s' sync_inv_def)
  next
    case HReturned
    with assms(2) show ?thesis by (simp add: host_step_def)
  qed
qed

lemma trial_step_inv:
  assumes "sync_inv J s" and "trial_step J h j s = Some s'"
  shows "sync_inv J s'"
proof -
  from assms(1) have m: "main_ok J s"
    and ho: "\<And>h'. host_ok J h' (hpc s h') (tpc s h') (sem s h') (wg s h')"
    by (simp_all add: sync_inv_def)
  note ok = ho[of h]
  let ?L = "length (login_of J h j)"
  from trial_step_cases[OF assms(2)]
  consider
    (send) k r i where "tpc s h j = Some k" "k < ?L" "mpc s = MRecv i"
      "s' = s\<lparr>tpc := (tpc s)(h := (tpc s h)(j := Some (k + 1))),
              trace := trace s @ [(h, j, ESend r)],
              successfulHosts := (if Success r then successfulHosts s @ [r] else successfulHosts s),
              mpc := MRecv (i + 1)\<rparr>"
  | (loc) k where "tpc s h j = Some k" "k < ?L"
      "s' = s\<lparr>tpc := (tpc s)(h := (tpc s h)(j := Some (k + 1))),
              trace := trace s @ [(h, j, login_of J h j ! k)]\<rparr>"
  | (pdone) "tpc s h j = Some ?L" "wg s h = 0"
  | (wdone) "tpc s h j = Some ?L"
      "s' = s\<lparr>tpc := (tpc s)(h := (tpc s h)(j := Some (?L + 1))), wg := (wg s)(h := wg s h - 1)\<rparr>"
  | (prel) "tpc s h j = Some (Suc ?L)" "sem s h = 0"
  | (rel) "tpc s h j = Some (Suc ?L)"
      "s' = s\<lparr>tpc := (tpc s)(h := (tpc s h)(j := Some (Suc ?L + 1))), sem := (sem s)(h := sem s h - 1)\<rparr>"
  | (crash) "s' = s\<lparr>panicked := True\<rparr>"
    by (elim disjE exE conjE) blast+
  then show ?thesis
  proof cases
    case crash
    have "main_ok J s' = main_ok J s"
      by (rule main_ok_cong) (simp_all add: crash)
    with m ho show ?thesis
      by (simp add: crash sync_inv_def)
  next
    case send
    have "host_ok J h (hpc s h) ((tpc s h)(j := Some (k + 1))) (sem s h) (wg s h)"
      using ok send(1,2) by (rule host_ok_trial_login)
    moreover have "main_ok J s'"
      using m send(3) by (simp add: send(4) main_ok_def started_upto_def)
    ultimately show ?thesis
      using ho by (simp add: send(4) sync_inv_def)
  next
    case loc
    have "host_ok J h (hpc s h) ((tpc s h)(j := Some (k + 1))) (sem s h) (wg s h)"
      using ok loc(1,2) by (rule host_ok_trial_login)
    moreover have "main_ok J s'"
      using m main_ok_cong[of s' s J] by (simp add: loc(3))
    ultimately show ?thesis
      using ho by (simp add: loc(3) sync_inv_def)
  next
    case pdone
    with host_ok_trial_done[OF ok pdone(1)] show ?thesis by simp
  next
    case wdone
    have "host_ok J h (hpc s h) ((tpc s h)(j := Some (?L + 1))) (sem s h) (wg s h - 1)"
      using host_ok_trial_done[OF ok wdone(1)] by simp
    moreover have "main_ok J s'"
      using m main_ok_cong[of s' s J] by (simp add: wdone(2))
    ultimately show ?thesis
      using ho by (simp add: wdone(2) sync_inv_def)
  next
    case prel
    with host_ok_trial_release[OF ok prel(1)] show ?thesis by simp
  next
    case rel
    have "host_ok J h (hpc s h) ((tpc s h)(j := Some (Suc ?L + 1))) (sem s h - 1) (wg s h)"
      using host_ok_trial_release[OF ok rel(1)] by simp
    moreover have "main_ok J s'"
      using m main_ok_cong[of s' s J] by (simp add: rel(2))
    ultimately show ?thesis
      using ho by (simp add: rel(2) sync_inv_def)
  qed
qed

lemma step_sync_inv: "sync_inv J s \<Longrightarrow> step J a s = Some s' \<Longrightarrow> sync_inv J s'"
  by (cases a) (auto simp: step_def split: if_splits
      intro: main_step_inv host_step_inv trial_step_inv)

lemma exec_sync_inv: "exec J sched s = Some s' \<Longrightarrow> sync_inv J s \<Longrightarrow> sync_inv J s'"
proof (induction sched arbitrary: s)
  case Nil
  then show ?case by simp
next
  case (Cons a as)
  then show ?case
    by (auto split: option.splits dest: step_sync_inv)
qed

lemma reachable_sync_inv: "exec J sched init = Some s \<Longrightarrow> sync_inv J s"
  using exec_sync_inv init_sync_inv by blast

text \<open>
  The effects recorded for a goroutine are the part of its \<open>SSHLogin\<close> that it
  has run so far.
\<close>

lemma effects_of_snoc:
  "effects_of h j (tr @ [(h', j', e)]) =
     (if h' = h \<and> j' = j then effects_of h j tr @ [e] else effects_of h j tr)"
  by (simp add: effects_of_def)

lemma init_trace_ok: "trace_ok J init"
  by (simp add: trace_ok_def init_def effects_of_def)

lemma main_step_trace_ok: "trace_ok J s \<Longrightarrow> main_step J s = Some s' \<Longrightarrow> trace_ok J s'"
  by (auto simp: main_step_def trace_ok_def split: mainpc.splits if_splits)

lemma host_step_trace_ok:
  assumes "sync_inv J s" and "trace_ok J s" and "host_step J h s = Some s'"
  shows "trace_ok J s'"
proof (cases "hpc s h")
  case (HGo i)
  with assms(3) have s': "s' = s\<lparr>tpc := (tpc s)(h := (tpc s h)(i := Some 0)),
                                   hpc := (hpc s)(h := HLoop (i + 1))\<rparr>"
    by (simp add: host_step_def)
  from assms(1) have "host_ok J h (hpc s h) (tpc s h) (sem s h) (wg s h)"
    by (simp add: sync_inv_def)
  with HGo have "launched_upto (tpc s h) i"
    by (simp add: host_ok_def pc_ok_def)
  then have "tpc s h i = None"
    by (auto simp: launched_upto_def)
  with assms(2) show ?thesis
    by (auto simp: s' trace_ok_def)
qed (use assms in \<open>auto simp: host_step_def trace_ok_def split: if_splits\<close>)

lemma trial_step_trace_ok:
  assumes "trace_ok J s" and "trial_step J h j s = Some s'"
  shows "trace_ok J s'"
proof -
  let ?L = "length (login_of J h j)"
  from assms(1) have t: "\<And>h j. effects_of h j (trace s) =
             (case tpc s h j of None \<Rightarrow> [] | Some k \<Rightarrow> take k (login_of J h j))"
    by (simp add: trace_ok_def)
  from trial_step_cases[OF assms(2)]
  consider
    (send) k r i where "tpc s h j = Some k" "k < ?L" "login_of J h j ! k = ESend r"
      "s' = s\<lparr>tpc := (tpc s)(h := (tpc s h)(j := Some (k + 1))),
              trace := trace s @ [(h, j, ESend r)],
              successfulHosts := (if Success r then successfulHosts s @ [r] else successfulHosts s),
              mpc := MRecv (i + 1)\<rparr>"
  | (loc) k where "tpc s h j = Some k" "k < ?L"
      "s' = s\<lparr>tpc := (tpc s)(h := (tpc s h)(j := Some (k + 1))),
              trace := trace s @ [(h, j, login_of J h j ! k)]\<rparr>"
  | (pdone) "s' = s\<lparr>panicked := True\<rparr>"
  | (wdone) "tpc s h j = Some ?L"
      "s' = s\<lparr>tpc := (tpc s)(h := (tpc s h)(j := Some (?L + 1))), wg := (wg s)(h := wg s h - 1)\<rparr>"
  | (rel) "tpc s h j = Some (Suc ?L)"
      "s' = s\<lparr>tpc := (tpc s)(h := (tpc s h)(j := Some (Suc ?L + 1))), sem := (sem s)(h := sem s h - 1)\<rparr>"
    by (elim disjE exE conjE) blast+
  then show ?thesis
  proof cases
    case send
    show ?thesis
      unfolding trace_ok_def send(4)
      using t send(1,2,3) by (auto simp: effects_of_snoc take_Suc_conv_app_nth)
  next
    case loc
    show ?thesis
      unfolding trace_ok_def loc(3)
      using t loc(1,2) by (auto simp: effects_of_snoc take_Suc_conv_app_nth)
  next
    case pdone
    with assms(1) show ?thesis by (simp add: trace_ok_def)
  next
    case wdone
    show ?thesis
      unfolding trace_ok_def wdone(2)
      using t wdone(1) by auto
  next
    case rel
    show ?thesis
      unfolding trace_ok_def rel(2)
      using t rel(1) by auto
  qed
qed

lemma step_job_inv: "job_inv J s \<Longrightarrow> step J a s = Some s' \<Longrightarrow> job_inv J s'"
  unfolding job_inv_def
  by (cases a) (auto simp: step_def split: if_splits
      intro: main_step_inv host_step_inv trial_step_inv
             main_step_trace_ok host_step_trace_ok trial_step_trace_ok)

lemma exec_job_inv: "exec J sched s = Some s' \<Longrightarrow> job_inv J s \<Longrightarrow> job_inv J s'"
proof (induction sched arbitrary: s)
  case Nil
  then show ?case by simp
next
  case (Cons a as)
  then show ?case
    by (auto split: option.splits dest: step_job_inv)
qed

lemma reachable_job_inv: "exec J sched init = Some s \<Longrightarrow> job_inv J s"
  using exec_job_inv[of J sched init s] init_sync_inv init_trace_ok by (simp add: job_inv_def)

text \<open>
  The panics of \<open>wg.Done()\<close> and of \<open>Release\<close> never happen: a goroutine that
  is at its \<open>wg.Done()\<close> finds the counter positive, and one that is at its
  \<open>Release\<close> finds a slot held.
\<close>

lemma own_panics_impossible:
  assumes "exec J sched init = Some s"
  shows "(tpc s h j = Some (length (login_of J h j)) \<longrightarrow> 0 < wg s h) \<and>
         (tpc s h j = Some (Suc (length (login_of J h j))) \<longrightarrow> 0 < sem s h)"
proof -
  from reachable_sync_inv[OF assms]
  have ok: "host_ok J h (hpc s h) (tpc s h) (sem s h) (wg s h)"
    by (simp add: sync_inv_def)
  show ?thesis
    using host_ok_trial_done[OF ok] host_ok_trial_release[OF ok] by blast
qed

text \<open>The program ends by a panic only where a dial panics.\<close>

lemma launched_in_range:
  assumes "sync_inv J s" and "tpc s h j = Some k"
  shows "h < length (jhosts J) \<and> j < length (jcreds J)"
proof -
  from assms(1) have m: "main_ok J s"
    and ok: "host_ok J h (hpc s h) (tpc s h) (sem s h) (wg s h)"
    by (simp_all add: sync_inv_def)
  from ok assms(2) have "j < length (jcreds J)"
    by (rule host_ok_launched)
  moreover from ok assms(2) have "hpc s h \<noteq> NotStarted"
    by (auto simp: host_ok_def pc_ok_def launched_upto_def)
  with m have "h < length (jhosts J)"
    by (auto simp: main_ok_def started_upto_def split: mainpc.splits)
  ultimately show ?thesis by simp
qed

lemma step_panicked:
  assumes "sync_inv J s" and "step J a s = Some s'" and "panicked s'"
  shows "\<exists>h j. h < length (jhosts J) \<and> j < length (jcreds J) \<and> EPanic \<in> set (login_of J h j)"
proof (cases a)
  case AMain
  with assms(2,3) show ?thesis
    by (auto simp: step_def main_step_def split: if_splits mainpc.splits)
next
  case (AHost h)
  with assms(2,3) show ?thesis
    by (auto simp: step_def host_step_def split: if_splits hostpc.splits)
next
  case (ATrial h j)
  with assms(2) have np: "\<not> panicked s" and t: "trial_step J h j s = Some s'"
    by (simp_all add: step_def split: if_splits)
  from assms(1) have ok: "host_ok J h (hpc s h) (tpc s h) (sem s h) (wg s h)"
    by (simp add: sync_inv_def)
  from trial_step_cases[OF t] np assms(3) host_ok_trial_done[OF ok] host_ok_trial_release[OF ok]
  obtain k where "tpc s h j = Some k" and "EPanic \<in> set (login_of J h j)"
    by (elim disjE exE conjE) auto
  with launched_in_range[OF assms(1)] show ?thesis
    by blast
qed

lemma exec_panicked:
  "exec J sched s = Some s' \<Longrightarrow> sync_inv J s \<Longrightarrow> panicked s' \<Longrightarrow> \<not> panicked s \<Longrightarrow>
   \<exists>h j. h < length (jhosts J) \<and> j < length (jcreds J) \<and> EPanic \<in> set (login_of J h j)"
proof (induction sched arbitrary: s)
  case Nil
  then show ?case by simp
next
  case (Cons a as)
  from Cons.prems(1) obtain s1 where a: "step J a s = Some s1" and as: "exec J as s1 = Some s'"
    by (auto split: option.splits)
  show ?case
  proof (cases "panicked s1")
    case True
    from step_panicked[OF Cons.prems(2) a True] show ?thesis .
  next
    case False
    from Cons.IH[OF as step_sync_inv[OF Cons.prems(2) a] Cons.prems(3) False] show ?thesis .
  qed
qed

lemma no_panic_never_panics:
  assumes "exec J sched init = Some s" and "no_panic J"
  shows "\<not> panicked s"
proof
  assume "panicked s"
  from exec_panicked[OF assms(1) init_sync_inv this] assms(2) show False
    by (auto simp: init_def no_panic_def)
qed

section \<open>Receives, termination and progress\<close>

text \<open>Sums over the hosts when the local state of one host changes.\<close>

lemma sum_upd_out:
  "n \<le> h \<Longrightarrow>
   sum_list (map (\<lambda>x. f x (if x = h then v else g x)) [0..<n]) = sum_list (map (\<lambda>x. f x (g x)) [0..<n])"
  by (induction n) auto

lemma sum_upd_same:
  "f h v = f h (g h) \<Longrightarrow>
   sum_list (map (\<lambda>x. f x (if x = h then v else g x)) [0..<n]) = sum_list (map (\<lambda>x. f x (g x)) [0..<n])"
  by (induction n) auto

lemma sum_upd_inc:
  "h < n \<Longrightarrow> f h v = Suc (f h (g h)) \<Longrightarrow>
   sum_list (map (\<lambda>x. f x (if x = h then v else g x)) [0..<n])
     = Suc (sum_list (map (\<lambda>x. f x (g x)) [0..<n]))"
proof (induction n)
  case 0 then show ?case by simp
next
  case (Suc n)
  show ?case
  proof (cases "h < n")
    case True
    with Suc show ?thesis by auto
  next
    case False
    with Suc.prems have "h = n" by simp
    with Suc.prems show ?thesis using sum_upd_out[of n n f v g] by simp
  qed
qed

lemma sum_upd_dec:
  "h < n \<Longrightarrow> Suc (f h v) = f h (g h) \<Longrightarrow>
   Suc (sum_list (map (\<lambda>x. f x (if x = h then v else g x)) [0..<n]))
     = sum_list (map (\<lambda>x. f x (g x)) [0..<n])"
proof (induction n)
  case 0 then show ?case by simp
next
  case (Suc n)
  show ?case
  proof (cases "h < n")
    case True
    with Suc show ?thesis by auto
  next
    case False
    with Suc.prems have "h = n" by simp
    with Suc.prems show ?thesis using sum_upd_out[of n n f v g] by simp
  qed
qed

lemma sent_by_same:
  "past_send J h j v = past_send J h j (t j) \<Longrightarrow> sent_by J h (t(j := v)) = sent_by J h t"
  unfolding sent_by_def fun_upd_apply by (rule count_upd_same)

lemma sent_by_inc:
  "j < length (jcreds J) \<Longrightarrow> \<not> past_send J h j (t j) \<Longrightarrow> past_send J h j v \<Longrightarrow>
   sent_by J h (t(j := v)) = Suc (sent_by J h t)"
  unfolding sent_by_def fun_upd_apply by (rule count_upd_inc)

lemma total_sent_same:
  "sent_by J h t' = sent_by J h (T h) \<Longrightarrow> total_sent J (T(h := t')) = total_sent J T"
  unfolding total_sent_def fun_upd_apply
  using sum_upd_same[of "sent_by J" h t' T "length (jhosts J)"] by simp

lemma total_sent_inc:
  "h < length (jhosts J) \<Longrightarrow> sent_by J h t' = Suc (sent_by J h (T h)) \<Longrightarrow>
   total_sent J (T(h := t')) = Suc (total_sent J T)"
  unfolding total_sent_def fun_upd_apply
  using sum_upd_inc[of h "length (jhosts J)" "sent_by J" t' T] by simp

text \<open>
  The send is the last effect of an \<open>SSHLogin\<close> that sends, and its only send;
  an \<open>SSHLogin\<close> that panics sends nothing.
\<close>

lemma sends_none: "(\<forall>r. ESend r \<notin> set xs) \<Longrightarrow> sends xs = []"
  by (induction xs rule: sends.induct) auto

lemma login_send_last:
  assumes "k < length (SSHLogin e host port cred debug)"
    and "SSHLogin e host port cred debug ! k = ESend r"
  shows "Suc k = length (SSHLogin e host port cred debug) \<and>
         sends (SSHLogin e host port cred debug) \<noteq> []"
proof -
  obtain pre x where p: "SSHLogin e host port cred debug = pre @ [x]"
    and n: "\<forall>r'. ESend r' \<notin> set pre"
    using login_shape by blast
  from assms n have k: "k = length pre"
    by (auto simp: p nth_append less_Suc_eq dest: nth_mem split: if_splits)
  with assms(2) have "x = ESend r"
    by (simp add: p)
  with k show ?thesis
    by (simp add: p sends_append)
qed

lemma login_not_send:
  assumes "k < length (SSHLogin e host port cred debug)"
    and "\<forall>r. SSHLogin e host port cred debug ! k \<noteq> ESend r"
  shows "Suc k < length (SSHLogin e host port cred debug) \<or>
         sends (SSHLogin e host port cred debug) = []"
proof -
  obtain pre x where p: "SSHLogin e host port cred debug = pre @ [x]"
    and x: "(\<exists>r. x = ESend r) \<or> x = EPanic" and n: "\<forall>r'. ESend r' \<notin> set pre"
    using login_shape by blast
  show ?thesis
  proof (cases "k < length pre")
    case True
    then show ?thesis by (simp add: p)
  next
    case False
    with assms(1) have "k = length pre" by (simp add: p)
    with assms(2) x have "x = EPanic" by (auto simp: p)
    with n show ?thesis by (simp add: p sends_append sends_none)
  qed
qed

lemma login_panics_iff:
  "sends (SSHLogin e host port cred debug) = [] \<longleftrightarrow>
   EPanic \<in> set (SSHLogin e host port cred debug)"
  using login_sends_count[of e host port cred debug] by (auto split: if_splits)

lemma init_recv_ok: "recv_ok J init"
  by (simp add: recv_ok_def init_def received_def total_sent_def sent_by_def past_send_def
      expected_def)

lemma trial_stepE [consumes 1, case_names send loc pdone wdone prel rel crash]:
  assumes "trial_step J h j s = Some s'"
  obtains
    k r i where "tpc s h j = Some k" "k < length (login_of J h j)"
      "login_of J h j ! k = ESend r" "mpc s = MRecv i" "i < length (jhosts J)"
      "s' = s\<lparr>tpc := (tpc s)(h := (tpc s h)(j := Some (k + 1))),
              trace := trace s @ [(h, j, ESend r)],
              successfulHosts := (if Success r then successfulHosts s @ [r] else successfulHosts s),
              mpc := MRecv (i + 1)\<rparr>"
  | k where "tpc s h j = Some k" "k < length (login_of J h j)"
      "\<forall>r. login_of J h j ! k \<noteq> ESend r"
      "s' = s\<lparr>tpc := (tpc s)(h := (tpc s h)(j := Some (k + 1))),
              trace := trace s @ [(h, j, login_of J h j ! k)]\<rparr>"
  | "tpc s h j = Some (length (login_of J h j))" "wg s h = 0" "s' = s\<lparr>panicked := True\<rparr>"
  | "tpc s h j = Some (length (login_of J h j))" "wg s h \<noteq> 0"
      "s' = s\<lparr>tpc := (tpc s)(h := (tpc s h)(j := Some (length (login_of J h j) + 1))),
              wg := (wg s)(h := wg s h - 1)\<rparr>"
  | "tpc s h j = Some (Suc (length (login_of J h j)))" "sem s h = 0" "s' = s\<lparr>panicked := True\<rparr>"
  | "tpc s h j = Some (Suc (length (login_of J h j)))" "sem s h \<noteq> 0"
      "s' = s\<lparr>tpc := (tpc s)(h := (tpc s h)(j := Some (Suc (length (login_of J h j)) + 1))),
              sem := (sem s)(h := sem s h - 1)\<rparr>"
  | k where "tpc s h j = Some k" "length (login_of J h j) + 2 \<le> k"
      "EPanic \<in> set (login_of J h j)" "s' = s\<lparr>panicked := True\<rparr>"
  using trial_step_cases[OF assms] by (elim disjE exE conjE) blast+

lemma sends_single: "sends [x] = (case x of ESend r \<Rightarrow> [r] | _ \<Rightarrow> [])"
  by (cases x) simp_all

lemma login_nonempty: "0 < length (login_of J h j)"
  using login_shape[of "jenv J" "jhosts J ! h" "jport J" "jcreds J ! j" "jdebug J"]
  by (auto simp: login_of_def)

lemma recv_ok_cong:
  "mpc s' = mpc s \<Longrightarrow> total_sent J (tpc s') = total_sent J (tpc s) \<Longrightarrow>
   trace s' = trace s \<Longrightarrow> successfulHosts s' = successfulHosts s \<Longrightarrow>
   recv_ok J s' = recv_ok J s"
  by (simp add: recv_ok_def received_def)

lemma main_step_recv_ok: "recv_ok J s \<Longrightarrow> main_step J s = Some s' \<Longrightarrow> recv_ok J s'"
  by (auto simp: main_step_def recv_ok_def received_def expected_def
      split: mainpc.splits if_splits)

lemma host_step_recv_ok:
  assumes "sync_inv J s" and "recv_ok J s" and "host_step J h s = Some s'"
  shows "recv_ok J s'"
proof (cases "hpc s h")
  case (HGo i)
  with assms(3) have s': "s' = s\<lparr>tpc := (tpc s)(h := (tpc s h)(i := Some 0)),
                                   hpc := (hpc s)(h := HLoop (i + 1))\<rparr>"
    by (simp add: host_step_def)
  from assms(1) have "host_ok J h (hpc s h) (tpc s h) (sem s h) (wg s h)"
    by (simp add: sync_inv_def)
  with HGo have "launched_upto (tpc s h) i"
    by (simp add: host_ok_def pc_ok_def)
  then have n: "tpc s h i = None"
    by (auto simp: launched_upto_def)
  have "sent_by J h ((tpc s h)(i := Some 0)) = sent_by J h (tpc s h)"
    by (rule sent_by_same) (use n login_nonempty[of J h i] in \<open>simp add: past_send_def\<close>)
  then have "total_sent J ((tpc s)(h := (tpc s h)(i := Some 0))) = total_sent J (tpc s)"
    by (rule total_sent_same)
  then have "recv_ok J s' = recv_ok J s"
    by (intro recv_ok_cong) (simp_all add: s')
  with assms(2) show ?thesis by simp
next
  case NotStarted
  with assms(3) show ?thesis by (simp add: host_step_def)
next
  case (HLoop i)
  with assms(3) have "recv_ok J s' = recv_ok J s"
    by (intro recv_ok_cong) (auto simp: host_step_def split: if_splits)
  with assms(2) show ?thesis by simp
next
  case (HAdd i)
  with assms(3) have "recv_ok J s' = recv_ok J s"
    by (intro recv_ok_cong) (auto simp: host_step_def split: if_splits)
  with assms(2) show ?thesis by simp
next
  case HWait
  with assms(3) have "recv_ok J s' = recv_ok J s"
    by (intro recv_ok_cong) (auto simp: host_step_def split: if_splits)
  with assms(2) show ?thesis by simp
next
  case HReturned
  with assms(3) show ?thesis by (simp add: host_step_def)
qed

lemma trial_step_recv_ok:
  assumes "sync_inv J s" and "recv_ok J s" and "trial_step J h j s = Some s'"
  shows "recv_ok J s'"
  using assms(3)
proof (cases rule: trial_stepE)
  case (send k r i)
  from launched_in_range[OF assms(1) send(1)]
  have h: "h < length (jhosts J)" and j: "j < length (jcreds J)" by simp_all
  from send(2,3) have kl: "Suc k = length (login_of J h j)"
    and ne: "sends (login_of J h j) \<noteq> []"
    using login_send_last[of k "jenv J" "jhosts J ! h" "jport J" "jcreds J ! j" "jdebug J" r]
    by (auto simp: login_of_def)
  have "sent_by J h ((tpc s h)(j := Some (k + 1))) = Suc (sent_by J h (tpc s h))"
    by (rule sent_by_inc) (use j send(1) kl ne in \<open>simp_all add: past_send_def\<close>)
  with h have t: "total_sent J ((tpc s)(h := (tpc s h)(j := Some (k + 1)))) = Suc (total_sent J (tpc s))"
    by (rule total_sent_inc)
  have r: "received s' = received s @ [r]"
    by (simp add: send(6) received_def sends_append)
  from assms(2) send(4) have "total_sent J (tpc s) = i" "length (received s) = i"
    "successfulHosts s = filter Success (received s)"
    by (simp_all add: recv_ok_def expected_def)
  with t r send(5) show ?thesis
    by (simp add: recv_ok_def send(6) expected_def)
next
  case (loc k)
  from loc(2,3) have kl: "Suc k < length (login_of J h j) \<or> sends (login_of J h j) = []"
    using login_not_send[of k "jenv J" "jhosts J ! h" "jport J" "jcreds J ! j" "jdebug J"]
    by (auto simp: login_of_def)
  have "sent_by J h ((tpc s h)(j := Some (k + 1))) = sent_by J h (tpc s h)"
    by (rule sent_by_same) (use loc(1,2) kl in \<open>auto simp: past_send_def\<close>)
  then have t: "total_sent J ((tpc s)(h := (tpc s h)(j := Some (k + 1)))) = total_sent J (tpc s)"
    by (rule total_sent_same)
  have r: "received s' = received s"
    using loc(3) by (simp add: loc(4) received_def sends_append sends_single split: effect.splits)
  from assms(2) t r show ?thesis
    by (simp add: recv_ok_def loc(4))
next
  case pdone
  with assms(2) show ?thesis by (simp add: recv_ok_def received_def)
next
  case wdone
  have "sent_by J h ((tpc s h)(j := Some (length (login_of J h j) + 1))) = sent_by J h (tpc s h)"
    by (rule sent_by_same) (use wdone(1) in \<open>simp add: past_send_def\<close>)
  then have t: "total_sent J ((tpc s)(h := (tpc s h)(j := Some (length (login_of J h j) + 1))))
      = total_sent J (tpc s)"
    by (rule total_sent_same)
  have "recv_ok J s' = recv_ok J s"
    by (rule recv_ok_cong) (use t in \<open>simp_all add: wdone(3)\<close>)
  with assms(2) show ?thesis by simp
next
  case prel
  with assms(2) show ?thesis by (simp add: recv_ok_def received_def)
next
  case rel
  have "sent_by J h ((tpc s h)(j := Some (Suc (length (login_of J h j)) + 1))) = sent_by J h (tpc s h)"
    by (rule sent_by_same) (use rel(1) in \<open>simp add: past_send_def\<close>)
  then have t: "total_sent J ((tpc s)(h := (tpc s h)(j := Some (Suc (length (login_of J h j)) + 1))))
      = total_sent J (tpc s)"
    by (rule total_sent_same)
  have "recv_ok J s' = recv_ok J s"
    by (rule recv_ok_cong) (use t in \<open>simp_all add: rel(3)\<close>)
  with assms(2) show ?thesis by simp
next
  case crash
  with assms(2) show ?thesis by (simp add: recv_ok_def received_def)
qed

lemma step_full_inv: "full_inv J s \<Longrightarrow> step J a s = Some s' \<Longrightarrow> full_inv J s'"
  unfolding full_inv_def
  by (cases a) (auto simp: step_def job_inv_def split: if_splits
      intro: main_step_inv host_step_inv trial_step_inv
             main_step_trace_ok host_step_trace_ok trial_step_trace_ok
             main_step_recv_ok host_step_recv_ok trial_step_recv_ok)

lemma exec_full_inv: "exec J sched s = Some s' \<Longrightarrow> full_inv J s \<Longrightarrow> full_inv J s'"
proof (induction sched arbitrary: s)
  case Nil
  then show ?case by simp
next
  case (Cons a as)
  then show ?case
    by (auto split: option.splits dest: step_full_inv)
qed

lemma init_full_inv: "full_inv J init"
  by (simp add: full_inv_def job_inv_def init_sync_inv init_trace_ok init_recv_ok)

lemma reachable_full_inv: "exec J sched init = Some s \<Longrightarrow> full_inv J s"
  using exec_full_inv init_full_inv by blast

text \<open>
  Every step uses up one of the steps left, so a schedule of a job is never
  longer than the steps left at its start.
\<close>

lemma hosts_rem_same:
  "host_rem J p = host_rem J (P h) \<Longrightarrow> hosts_rem J (P(h := p)) = hosts_rem J P"
  unfolding hosts_rem_def fun_upd_apply
  using sum_upd_same[of "\<lambda>x. host_rem J" h p P "length (jhosts J)"] by simp

lemma hosts_rem_dec:
  "h < length (jhosts J) \<Longrightarrow> Suc (host_rem J p) = host_rem J (P h) \<Longrightarrow>
   Suc (hosts_rem J (P(h := p))) = hosts_rem J P"
  unfolding hosts_rem_def fun_upd_apply
  using sum_upd_dec[of h "length (jhosts J)" "\<lambda>x. host_rem J" p P] by simp

lemma trials_rem_same:
  "trial_rem J h j v = trial_rem J h j (t j) \<Longrightarrow> trials_rem J h (t(j := v)) = trials_rem J h t"
  unfolding trials_rem_def fun_upd_apply
  using sum_upd_same[of "trial_rem J h" j v t "length (jcreds J)"] by simp

lemma trials_rem_dec:
  "j < length (jcreds J) \<Longrightarrow> Suc (trial_rem J h j v) = trial_rem J h j (t j) \<Longrightarrow>
   Suc (trials_rem J h (t(j := v))) = trials_rem J h t"
  unfolding trials_rem_def fun_upd_apply
  using sum_upd_dec[of j "length (jcreds J)" "trial_rem J h" v t] by simp

lemma all_trials_rem_same:
  "trials_rem J h t' = trials_rem J h (T h) \<Longrightarrow> all_trials_rem J (T(h := t')) = all_trials_rem J T"
  unfolding all_trials_rem_def fun_upd_apply
  using sum_upd_same[of "trials_rem J" h t' T "length (jhosts J)"] by simp

lemma all_trials_rem_dec:
  "h < length (jhosts J) \<Longrightarrow> Suc (trials_rem J h t') = trials_rem J h (T h) \<Longrightarrow>
   Suc (all_trials_rem J (T(h := t'))) = all_trials_rem J T"
  unfolding all_trials_rem_def fun_upd_apply
  using sum_upd_dec[of h "length (jhosts J)" "trials_rem J" t' T] by simp

lemma trial_advance_rem:
  assumes "sync_inv J s" and "tpc s h j = Some k" and "k < length (trial_prog J h j)"
  shows "Suc (all_trials_rem J ((tpc s)(h := (tpc s h)(j := Some (k + 1))))) = all_trials_rem J (tpc s)"
proof -
  from launched_in_range[OF assms(1,2)]
  have h: "h < length (jhosts J)" and j: "j < length (jcreds J)" by simp_all
  have "Suc (trials_rem J h ((tpc s h)(j := Some (k + 1)))) = trials_rem J h (tpc s h)"
    by (rule trials_rem_dec[OF j]) (use assms(2,3) in \<open>simp add: trial_rem_def\<close>)
  with h show ?thesis
    by (rule all_trials_rem_dec)
qed

lemma started_in_range:
  assumes "sync_inv J s" and "hpc s h \<noteq> NotStarted"
  shows "h < length (jhosts J)"
  using assms by (auto simp: sync_inv_def main_ok_def started_upto_def split: mainpc.splits)

lemma main_step_rem:
  assumes "sync_inv J s" and "main_step J s = Some s'"
  shows "Suc (steps_left J s') = steps_left J s"
proof (cases "mpc s")
  case (MSpawn i)
  show ?thesis
  proof (cases "i < length (jhosts J)")
    case True
    with MSpawn assms(2) have s': "s' = s\<lparr>hpc := (hpc s)(i := HLoop 0), mpc := MSpawn (i + 1)\<rparr>"
      by (simp add: main_step_def)
    from assms(1) MSpawn have "hpc s i = NotStarted"
      by (auto simp: sync_inv_def main_ok_def started_upto_def)
    then have "hosts_rem J ((hpc s)(i := HLoop 0)) = hosts_rem J (hpc s)"
      by (intro hosts_rem_same) (simp add: host_rem_def)
    moreover from True have "Suc (main_rem J (MSpawn (i + 1))) = main_rem J (MSpawn i)"
      by (simp add: main_rem_def Suc_diff_Suc)
    ultimately show ?thesis
      using MSpawn by (simp add: s' steps_left_def)
  next
    case False
    with MSpawn assms(2) have s': "s' = s\<lparr>mpc := MRecv 0\<rparr>"
      by (simp add: main_step_def)
    from False MSpawn show ?thesis
      by (simp add: s' steps_left_def main_rem_def)
  qed
next
  case (MRecv i)
  with assms(2) have s': "s' = s\<lparr>mpc := MReturned\<rparr>"
    by (simp add: main_step_def split: if_splits)
  from MRecv show ?thesis
    by (simp add: s' steps_left_def main_rem_def)
next
  case MReturned
  with assms(2) show ?thesis by (simp add: main_step_def)
qed

lemma host_step_rem:
  assumes "sync_inv J s" and "host_step J h s = Some s'"
  shows "Suc (steps_left J s') = steps_left J s"
proof -
  from assms(2) have "hpc s h \<noteq> NotStarted"
    by (auto simp: host_step_def)
  with assms(1) have h: "h < length (jhosts J)"
    by (rule started_in_range)
  from assms(1) have ok: "host_ok J h (hpc s h) (tpc s h) (sem s h) (wg s h)"
    by (simp add: sync_inv_def)
  show ?thesis
  proof (cases "hpc s h")
    case NotStarted
    with assms(2) show ?thesis by (simp add: host_step_def)
  next
    case (HLoop i)
    show ?thesis
    proof (cases "i < length (jcreds J)")
      case True
      with HLoop assms(2)
      have s': "s' = s\<lparr>sem := (sem s)(h := sem s h + 1), hpc := (hpc s)(h := HAdd i)\<rparr>"
        by (simp_all add: host_step_def split: if_splits)
      have "Suc (hosts_rem J ((hpc s)(h := HAdd i))) = hosts_rem J (hpc s)"
        by (rule hosts_rem_dec[OF h]) (simp add: HLoop host_rem_def)
      then show ?thesis
        by (simp add: s' steps_left_def)
    next
      case False
      with HLoop assms(2) have s': "s' = s\<lparr>hpc := (hpc s)(h := HWait)\<rparr>"
        by (simp add: host_step_def)
      have "Suc (hosts_rem J ((hpc s)(h := HWait))) = hosts_rem J (hpc s)"
        by (rule hosts_rem_dec[OF h]) (use False in \<open>simp add: HLoop host_rem_def\<close>)
      then show ?thesis
        by (simp add: s' steps_left_def)
    qed
  next
    case (HAdd i)
    with assms(2) have s': "s' = s\<lparr>wg := (wg s)(h := wg s h + 1), hpc := (hpc s)(h := HGo i)\<rparr>"
      by (simp add: host_step_def)
    have "Suc (hosts_rem J ((hpc s)(h := HGo i))) = hosts_rem J (hpc s)"
      by (rule hosts_rem_dec[OF h]) (simp add: HAdd host_rem_def)
    then show ?thesis
      by (simp add: s' steps_left_def)
  next
    case (HGo i)
    with assms(2) have s': "s' = s\<lparr>tpc := (tpc s)(h := (tpc s h)(i := Some 0)),
                                   hpc := (hpc s)(h := HLoop (i + 1))\<rparr>"
      by (simp add: host_step_def)
    from ok HGo have i: "i < length (jcreds J)" and "launched_upto (tpc s h) i"
      by (simp_all add: host_ok_def pc_ok_def)
    then have n: "tpc s h i = None"
      by (auto simp: launched_upto_def)
    have "Suc (hosts_rem J ((hpc s)(h := HLoop (i + 1)))) = hosts_rem J (hpc s)"
      by (rule hosts_rem_dec[OF h]) (use i in \<open>simp add: HGo host_rem_def Suc_diff_Suc\<close>)
    moreover have "trials_rem J h ((tpc s h)(i := Some 0)) = trials_rem J h (tpc s h)"
      by (rule trials_rem_same) (simp add: n trial_rem_def)
    then have "all_trials_rem J ((tpc s)(h := (tpc s h)(i := Some 0))) = all_trials_rem J (tpc s)"
      by (rule all_trials_rem_same)
    ultimately show ?thesis
      by (simp add: s' steps_left_def)
  next
    case HWait
    with assms(2) have s': "s' = s\<lparr>hpc := (hpc s)(h := HReturned)\<rparr>"
      by (simp_all add: host_step_def split: if_splits)
    have "Suc (hosts_rem J ((hpc s)(h := HReturned))) = hosts_rem J (hpc s)"
      by (rule hosts_rem_dec[OF h]) (simp add: HWait host_rem_def)
    then show ?thesis
      by (simp add: s' steps_left_def)
  next
    case HReturned
    with assms(2) show ?thesis by (simp add: host_step_def)
  qed
qed

lemma trial_step_rem:
  assumes "sync_inv J s" and "trial_step J h j s = Some s'" and "\<not> panicked s"
  shows "Suc (steps_left J s') = steps_left J s"
proof -
  from assms(1) have ok: "host_ok J h (hpc s h) (tpc s h) (sem s h) (wg s h)"
    by (simp add: sync_inv_def)
  from assms(2) show ?thesis
  proof (cases rule: trial_stepE)
    case (send k r i)
    have "Suc (all_trials_rem J ((tpc s)(h := (tpc s h)(j := Some (k + 1))))) = all_trials_rem J (tpc s)"
      by (rule trial_advance_rem[OF assms(1) send(1)]) (use send(2) in \<open>simp add: length_trial_prog\<close>)
    then show ?thesis
      by (simp add: send(6) send(4) steps_left_def main_rem_def)
  next
    case (loc k)
    have "Suc (all_trials_rem J ((tpc s)(h := (tpc s h)(j := Some (k + 1))))) = all_trials_rem J (tpc s)"
      by (rule trial_advance_rem[OF assms(1) loc(1)]) (use loc(2) in \<open>simp add: length_trial_prog\<close>)
    then show ?thesis
      by (simp add: loc(4) steps_left_def)
  next
    case pdone
    with host_ok_trial_done[OF ok pdone(1)] show ?thesis by simp
  next
    case wdone
    have "Suc (all_trials_rem J ((tpc s)(h := (tpc s h)(j := Some (length (login_of J h j) + 1)))))
        = all_trials_rem J (tpc s)"
      by (rule trial_advance_rem[OF assms(1) wdone(1)]) (simp add: length_trial_prog)
    then show ?thesis
      by (simp add: wdone(3) steps_left_def)
  next
    case prel
    with host_ok_trial_release[OF ok prel(1)] show ?thesis by simp
  next
    case rel
    have "Suc (all_trials_rem J ((tpc s)(h := (tpc s h)(j := Some (Suc (length (login_of J h j)) + 1)))))
        = all_trials_rem J (tpc s)"
      by (rule trial_advance_rem[OF assms(1) rel(1)]) (simp add: length_trial_prog)
    then show ?thesis
      by (simp add: rel(3) steps_left_def)
  next
    case crash
    with assms(3) show ?thesis
      by (simp add: steps_left_def)
  qed
qed

lemma step_rem: "sync_inv J s \<Longrightarrow> step J a s = Some s' \<Longrightarrow> Suc (steps_left J s') = steps_left J s"
  by (cases a) (auto simp: step_def split: if_splits
      intro: main_step_rem host_step_rem trial_step_rem)

lemma exec_rem:
  "exec J sched s = Some s' \<Longrightarrow> sync_inv J s \<Longrightarrow> length sched + steps_left J s' = steps_left J s"
proof (induction sched arbitrary: s)
  case Nil
  then show ?case by simp
next
  case (Cons a as)
  from Cons.prems(1) obtain s1 where a: "step J a s = Some s1" and as: "exec J as s1 = Some s'"
    by (auto split: option.splits)
  from step_sync_inv[OF Cons.prems(2) a] have "sync_inv J s1" .
  from Cons.IH[OF as this] step_rem[OF Cons.prems(2) a] show ?case
    by simp
qed

text \<open>
  With at least one credential, some goroutine can move as long as
  \<open>SSHBruteForce\<close> has not returned and no panic has ended the program: a
  goroutine that has not sent yet can be started, can run on (to its send, or
  to the end of the program if its dial has panicked), or finds
  \<open>SSHBruteForce\<close> ready to receive.
\<close>

lemma count_all: "(\<forall>j<m. P j) \<Longrightarrow> length (filter P [0..<m]) = m"
  by (induction m) auto

lemma sum_const: "(\<forall>h<n. f h = c) \<Longrightarrow> sum_list (map f [0..<n]) = n * c"
  by (induction n) auto

lemma count_pos: "0 < length (filter P [0..<m]) \<Longrightarrow> \<exists>j<m. P j"
  by (induction m) (auto split: if_splits simp: less_Suc_eq)

lemma unsent_exists:
  assumes "total_sent J T < length (jhosts J) * length (jcreds J)"
  shows "\<exists>h<length (jhosts J). \<exists>j<length (jcreds J). \<not> past_send J h j (T h j)"
proof (rule ccontr)
  assume "\<not> ?thesis"
  then have a: "\<forall>h<length (jhosts J). \<forall>j<length (jcreds J). past_send J h j (T h j)"
    by blast
  have "\<forall>h<length (jhosts J). sent_by J h (T h) = length (jcreds J)"
    using a by (auto simp: sent_by_def intro: count_all)
  then have "total_sent J T = length (jhosts J) * length (jcreds J)"
    unfolding total_sent_def by (rule sum_const)
  with assms show False by simp
qed

lemma launched_upto_lt: "launched_upto t i \<Longrightarrow> j < i \<Longrightarrow> t j \<noteq> None"
  unfolding launched_upto_def by blast

lemma trial_enabled:
  assumes "tpc s h j = Some k" and "k < length (trial_prog J h j)"
    and "mpc s = MRecv i" and "i < length (jhosts J)"
  shows "\<exists>s'. trial_step J h j s = Some s'"
  using assms by (simp add: trial_step_def split: instr.splits effect.splits)

lemma progress:
  assumes inv: "full_inv J s" and creds: "jcreds J \<noteq> []" and nr: "mpc s \<noteq> MReturned"
    and np: "\<not> panicked s"
  shows "\<exists>a s'. step J a s = Some s'"
proof -
  from inv have si: "sync_inv J s" and ro: "recv_ok J s"
    by (simp_all add: full_inv_def job_inv_def)
  from si have mo: "main_ok J s"
    by (simp add: sync_inv_def)
  show ?thesis
  proof (cases "mpc s")
    case (MSpawn i)
    with np have "\<exists>s'. step J AMain s = Some s'"
      by (simp add: step_def main_step_def)
    then show ?thesis by blast
  next
    case MReturned
    with nr show ?thesis by simp
  next
    case (MRecv i)
    show ?thesis
    proof (cases "i < length (jhosts J)")
      case False
      with MRecv np have "\<exists>s'. step J AMain s = Some s'"
        by (simp add: step_def main_step_def)
      then show ?thesis by blast
    next
      case True
      from ro MRecv have "total_sent J (tpc s) = i"
        by (simp add: recv_ok_def expected_def)
      moreover from creds have "length (jhosts J) * 1 \<le> length (jhosts J) * length (jcreds J)"
        by (intro mult_le_mono2) (cases "jcreds J", simp_all)
      ultimately have "total_sent J (tpc s) < length (jhosts J) * length (jcreds J)"
        using True by linarith
      from unsent_exists[OF this] obtain h j where h: "h < length (jhosts J)"
        and j: "j < length (jcreds J)" and u: "\<not> past_send J h j (tpc s h j)"
        by blast
      from si have ok: "host_ok J h (hpc s h) (tpc s h) (sem s h) (wg s h)"
        by (simp add: sync_inv_def)
      from mo MRecv h have st: "hpc s h \<noteq> NotStarted"
        by (simp add: main_ok_def started_upto_def)
      show ?thesis
      proof (cases "tpc s h j")
        case (Some k)
        show ?thesis
        proof (cases "k < length (trial_prog J h j)")
          case kl: True
          from trial_enabled[OF Some kl MRecv True] np
          have "\<exists>s'. step J (ATrial h j) s = Some s'"
            by (simp add: step_def)
          then show ?thesis by blast
        next
          case False
          with u Some have "sends (login_of J h j) = []"
            by (simp add: past_send_def length_trial_prog)
          then have "EPanic \<in> set (login_of J h j)"
            by (simp add: login_of_def login_panics_iff)
          with False Some np have "\<exists>s'. step J (ATrial h j) s = Some s'"
            by (simp add: step_def trial_step_def)
          then show ?thesis by blast
        qed
      next
        case None
        show ?thesis
        proof (cases "hpc s h")
          case NotStarted
          with st show ?thesis by simp
        next
          case (HLoop i')
          with ok have "launched_upto (tpc s h) i'"
            by (simp add: host_ok_def pc_ok_def)
          with None have "\<not> j < i'"
            using launched_upto_lt by blast
          with j have i': "i' < length (jcreds J)" by simp
          show ?thesis
          proof (cases "sem s h + 1 \<le> lim")
            case True
            with HLoop i' np have "\<exists>s'. step J (AHost h) s = Some s'"
              by (simp add: step_def host_step_def)
            then show ?thesis by blast
          next
            case False
            with ok HLoop have "0 < slots J h (tpc s h)"
              by (simp add: host_ok_def pend_sem_def lim_def)
            then obtain j' where "holds_slot J h j' (tpc s h j')"
              unfolding slots_def using count_pos by blast
            then obtain k' where k': "tpc s h j' = Some k'" and "k' < length (trial_prog J h j')"
              by (auto simp: holds_slot_def split: option.splits)
            from trial_enabled[OF this MRecv True] np
            have "\<exists>s'. step J (ATrial h j') s = Some s'"
              by (simp add: step_def)
            then show ?thesis by blast
          qed
        next
          case (HAdd i')
          with np have "\<exists>s'. step J (AHost h) s = Some s'"
            by (simp add: step_def host_step_def)
          then show ?thesis by blast
        next
          case (HGo i')
          with np have "\<exists>s'. step J (AHost h) s = Some s'"
            by (simp add: step_def host_step_def)
          then show ?thesis by blast
        next
          case HWait
          with ok have "launched_upto (tpc s h) (length (jcreds J))"
            by (simp add: host_ok_def pc_ok_def)
          with None j show ?thesis
            using launched_upto_lt by blast
        next
          case HReturned
          with ok have "launched_upto (tpc s h) (length (jcreds J))"
            by (simp add: host_ok_def pc_ok_def)
          with None j show ?thesis
            using launched_upto_lt by blast
        qed
      qed
    qed
  qed
qed

lemma maximal_schedule_returns:
  assumes "exec J sched init = Some s" and "jcreds J \<noteq> []" and "\<forall>a. step J a s = None"
  shows "mpc s = MReturned \<or> panicked s"
proof (rule ccontr)
  assume "\<not> (mpc s = MReturned \<or> panicked s)"
  then have "mpc s \<noteq> MReturned" and "\<not> panicked s" by simp_all
  from progress[OF reachable_full_inv[OF assms(1)] assms(2) this] assms(3)
  show False by simp
qed

lemma can_finish:
  "full_inv J s \<Longrightarrow> jcreds J \<noteq> [] \<Longrightarrow>
   \<exists>sched s'. exec J sched s = Some s' \<and> (mpc s' = MReturned \<or> panicked s')"
proof (induction "steps_left J s" arbitrary: s rule: less_induct)
  case less
  show ?case
  proof (cases "mpc s = MReturned \<or> panicked s")
    case True
    then have "exec J [] s = Some s \<and> (mpc s = MReturned \<or> panicked s)" by simp
    then show ?thesis by blast
  next
    case False
    then have "mpc s \<noteq> MReturned" and "\<not> panicked s" by simp_all
    from progress[OF less.prems(1,2) this] obtain a s1 where a: "step J a s = Some s1"
      by blast
    from less.prems(1) have "sync_inv J s"
      by (simp add: full_inv_def job_inv_def)
    from step_rem[OF this a] have "steps_left J s1 < steps_left J s"
      by simp
    moreover from step_full_inv[OF less.prems(1) a] have "full_inv J s1" .
    ultimately obtain sched s' where "exec J sched s1 = Some s'"
      and "mpc s' = MReturned \<or> panicked s'"
      using less.hyps less.prems(2) by blast
    with a have "exec J (a # sched) s = Some s' \<and> (mpc s' = MReturned \<or> panicked s')"
      by simp
    then show ?thesis by blast
  qed
qed

lemma exec_append:
  "exec J (xs @ ys) s = (case exec J xs s of None \<Rightarrow> None | Some s1 \<Rightarrow> exec J ys s1)"
  by (induction xs arbitrary: s) (auto split: option.splits)

text \<open>
  No deadlock: from every state that a job can reach, the goroutines can go on
  until \<open>SSHBruteForce\<close> returns or a panic ends the program; and where no
  dial panics, until \<open>SSHBruteForce\<close> returns.
\<close>

lemma no_deadlock:
  assumes "exec J sched init = Some s" and "jcreds J \<noteq> []"
  shows "\<exists>sched' s'. exec J (sched @ sched') init = Some s' \<and>
           (mpc s' = MReturned \<or> panicked s')"
proof -
  from can_finish[OF reachable_full_inv[OF assms(1)] assms(2)]
  obtain sched' s' where "exec J sched' s = Some s'" and "mpc s' = MReturned \<or> panicked s'"
    by blast
  with assms(1) have "exec J (sched @ sched') init = Some s' \<and>
      (mpc s' = MReturned \<or> panicked s')"
    by (simp add: exec_append)
  then show ?thesis by blast
qed

lemma SSHBruteForce_returns:
  assumes "creds \<noteq> []"
    and "no_panic \<lparr>jenv = e, jhosts = hosts, jport = port, jcreds = creds, jdebug = debug\<rparr>"
  shows "\<exists>sched r. SSHBruteForce e sched hosts port creds debug = Some r"
proof -
  let ?J = "\<lparr>jenv = e, jhosts = hosts, jport = port, jcreds = creds, jdebug = debug\<rparr>"
  from assms have "jcreds ?J \<noteq> []" by simp
  from can_finish[OF init_full_inv this]
  obtain sched s' where s': "exec ?J sched init = Some s'"
    and "mpc s' = MReturned \<or> panicked s'"
    by blast
  with no_panic_never_panics[OF s' assms(2)] have "mpc s' = MReturned"
    by simp
  with s' have "SSHBruteForce e sched hosts port creds debug = Some (successfulHosts s', trace s')"
    by (simp add: SSHBruteForce_def)
  then show ?thesis by blast
qed

lemma schedule_length_bound:
  assumes "exec J sched init = Some s"
  shows "length sched \<le> steps_left J init"
  using exec_rem[OF assms init_sync_inv] by simp

text \<open>
  With a single credential the receives of \<open>SSHBruteForce\<close> are as many as the
  goroutines: when it returns, every goroutine has completed its send.
\<close>

lemma sum_all_max:
  "sum_list (map f [0..<n]) = n * c \<Longrightarrow> (\<forall>h<n. f h \<le> c) \<Longrightarrow> h < n \<Longrightarrow> f h = (c::nat)"
proof (induction n)
  case 0
  then show ?case by simp
next
  case (Suc n)
  have le: "sum_list (map f [0..<n]) \<le> n * c"
    using Suc.prems(2) by (induction n) (auto simp: less_Suc_eq add_le_mono)
  from Suc.prems(2) have fn: "f n \<le> c" by simp
  from Suc.prems(1) have "sum_list (map f [0..<n]) + f n = n * c + c" by simp
  with le fn have a: "sum_list (map f [0..<n]) = n * c" and b: "f n = c" by arith+
  show ?case
  proof (cases "h < n")
    case True
    with Suc.IH[OF a] Suc.prems(2) show ?thesis by simp
  next
    case False
    with Suc.prems(3) b show ?thesis by (simp add: less_Suc_eq)
  qed
qed

lemma count_full: "length (filter P [0..<m]) = m \<Longrightarrow> j < m \<Longrightarrow> P j"
proof (induction m)
  case 0
  then show ?case by simp
next
  case (Suc m)
  have le: "length (filter P [0..<m]) \<le> m"
    using length_filter_le[of P "[0..<m]"] by simp
  from Suc.prems(1) le have "P m \<and> length (filter P [0..<m]) = m"
    by (auto split: if_splits)
  with Suc show ?case
    by (auto simp: less_Suc_eq)
qed

lemma all_sent_when_full:
  assumes "total_sent J T = length (jhosts J) * length (jcreds J)"
    and "h < length (jhosts J)" and "j < length (jcreds J)"
  shows "past_send J h j (T h j)"
proof -
  have "\<forall>h<length (jhosts J). sent_by J h (T h) \<le> length (jcreds J)"
    using length_filter_le[of _ "[0..<length (jcreds J)]"] by (simp add: sent_by_def)
  with assms(1,2) have "sent_by J h (T h) = length (jcreds J)"
    unfolding total_sent_def
    using sum_all_max[of "\<lambda>h. sent_by J h (T h)" "length (jhosts J)" "length (jcreds J)" h]
    by simp
  then show ?thesis
    unfolding sent_by_def using assms(3) by (rule count_full)
qed

lemma dial_mem_login:
  "EDial ''tcp'' (host @ '':'' @ show_int port) (sshConfig_of e cred)
     \<in> set (SSHLogin e host port cred debug)"
  by (simp add: SSHLogin_def Let_def)

lemma effects_of_mem: "x \<in> set (effects_of h j tr) \<Longrightarrow> (h, j, x) \<in> set tr"
  by (auto simp: effects_of_def)

lemma brute_results:
  assumes "SSHBruteForce e sched hosts port creds debug = Some (results, tr)"
  shows "results = filter Success (sends (map (\<lambda>x. snd (snd x)) tr)) \<and>
         length (sends (map (\<lambda>x. snd (snd x)) tr)) = length hosts"
proof -
  let ?J = "\<lparr>jenv = e, jhosts = hosts, jport = port, jcreds = creds, jdebug = debug\<rparr>"
  from assms obtain s where s: "exec ?J sched init = Some s" and r: "mpc s = MReturned"
    and tr: "tr = trace s" and res: "results = successfulHosts s"
    by (auto simp: SSHBruteForce_def split: option.splits if_splits)
  from reachable_full_inv[OF s] have "recv_ok ?J s"
    by (simp add: full_inv_def)
  with r tr res show ?thesis
    by (simp add: recv_ok_def expected_def received_def)
qed

lemma single_cred_complete:
  assumes "SSHBruteForce e sched hosts port [cred] debug = Some (results, tr)"
    and "h < length hosts"
  shows "effects_of h 0 tr = SSHLogin e (hosts ! h) port cred debug"
proof -
  let ?J = "\<lparr>jenv = e, jhosts = hosts, jport = port, jcreds = [cred], jdebug = debug\<rparr>"
  from assms(1) obtain s where s: "exec ?J sched init = Some s" and r: "mpc s = MReturned"
    and tr: "tr = trace s"
    by (auto simp: SSHBruteForce_def split: option.splits if_splits)
  from reachable_full_inv[OF s] have t: "trace_ok ?J s" and ro: "recv_ok ?J s"
    by (simp_all add: full_inv_def job_inv_def)
  from ro r have "total_sent ?J (tpc s) = length (jhosts ?J) * length (jcreds ?J)"
    by (simp add: recv_ok_def expected_def)
  from all_sent_when_full[OF this, of h 0] assms(2) have "past_send ?J h 0 (tpc s h 0)"
    by simp
  then obtain k where k: "tpc s h 0 = Some k" and "length (login_of ?J h 0) \<le> k"
    by (auto simp: past_send_def split: option.splits)
  with t have "effects_of h 0 (trace s) = login_of ?J h 0"
    by (simp add: trace_ok_def)
  with tr show ?thesis
    by (simp add: login_of_def)
qed

lemma returns_after_len_hosts_receives:
  assumes "exec J sched init = Some s" and "mpc s = MReturned"
  shows "length (received s) = length (jhosts J)"
  using reachable_full_inv[OF assms(1)] assms(2)
  by (simp add: full_inv_def recv_ok_def expected_def)

text \<open>
  With a single credential, \<open>SSHBruteForce\<close> does not return under any
  schedule when the dial of one of its goroutines panics: the receive loop
  waits for a result that is never sent.
\<close>

lemma single_cred_panic_never_returns:
  assumes "h < length hosts" and "EPanic \<in> set (SSHLogin e (hosts ! h) port cred debug)"
  shows "SSHBruteForce e sched hosts port [cred] debug = None"
proof (rule ccontr)
  let ?J = "\<lparr>jenv = e, jhosts = hosts, jport = port, jcreds = [cred], jdebug = debug\<rparr>"
  assume "SSHBruteForce e sched hosts port [cred] debug \<noteq> None"
  then obtain s where s: "exec ?J sched init = Some s" and r: "mpc s = MReturned"
    by (auto simp: SSHBruteForce_def split: option.splits if_splits)
  from reachable_full_inv[OF s] have ro: "recv_ok ?J s"
    by (simp add: full_inv_def)
  from ro r have "total_sent ?J (tpc s) = length (jhosts ?J) * length (jcreds ?J)"
    by (simp add: recv_ok_def expected_def)
  from all_sent_when_full[OF this, of h 0] assms(1) have "past_send ?J h 0 (tpc s h 0)"
    by simp
  then have "sends (login_of ?J h 0) \<noteq> []"
    by (auto simp: past_send_def split: option.splits)
  with assms(2) show False
    by (simp add: login_of_def login_panics_iff)
qed

section \<open>Properties of \<open>Brute\<close> and \<open>SSHBruteForce\<close>\<close>

lemma prog22:
  "trial_prog job22 0 0 =
     [Eff (EDial ''tcp'' ''10.0.0.1:22''
            \<lparr>User = ''root'', HostKeyCallback = InsecureIgnoreHostKey, Timeout = 500,
             Auth = [Some (PasswordAuth ''toor'')]\<rparr>),
      Eff (ENewSession (Client 1)), Eff (EClose (Session 1)),
      Eff (ESend \<lparr>Status = [], Success = True, Username = ''root'', Secret = ''toor'',
                  Host = ''10.0.0.1''\<rparr>),
      WgDone, Release]"
  "trial_prog job22 0 (Suc 0) =
     [Eff (EDial ''tcp'' ''10.0.0.1:22''
            \<lparr>User = ''root'', HostKeyCallback = InsecureIgnoreHostKey, Timeout = 500,
             Auth = [Some (PasswordAuth ''12345'')]\<rparr>),
      Eff (ESend \<lparr>Status = [], Success = False, Username = ''root'', Secret = ''12345'',
                  Host = ''10.0.0.1''\<rparr>),
      WgDone, Release]"
  "trial_prog job22 (Suc 0) 0 =
     [Eff (EDial ''tcp'' ''10.0.0.2:22''
            \<lparr>User = ''root'', HostKeyCallback = InsecureIgnoreHostKey, Timeout = 500,
             Auth = [Some (PasswordAuth ''toor'')]\<rparr>),
      Eff (ESend \<lparr>Status = [], Success = False, Username = ''root'', Secret = ''toor'',
                  Host = ''10.0.0.2''\<rparr>),
      WgDone, Release]"
  "trial_prog job22 (Suc 0) (Suc 0) =
     [Eff (EDial ''tcp'' ''10.0.0.2:22''
            \<lparr>User = ''root'', HostKeyCallback = InsecureIgnoreHostKey, Timeout = 500,
             Auth = [Some (PasswordAuth ''12345'')]\<rparr>),
      Eff (ESend \<lparr>Status = [], Success = False, Username = ''root'', Secret = ''12345'',
                  Host = ''10.0.0.2''\<rparr>),
      WgDone, Release]"
  by (simp_all add: trial_prog_def login_of_def job22_def SSHLogin_def sshConfig_of_def
      ssh_Dial_def env_demo_def cred_a_def cred_b_def show_int_22)

lemma job22_sizes: "length (jhosts job22) = 2" "length (jcreds job22) = 2"
  by (simp_all add: job22_def)

lemmas run22 = init_def step_def main_step_def host_step_def trial_step_def prog22 job22_sizes
  lim_def

text \<open>\<open>Acquire\<close> blocks when all 100 slots are held.\<close>

lemma acquire_blocks_at_ceiling:
  "hpc s h = HLoop i \<Longrightarrow> i < length (jcreds J) \<Longrightarrow> sem s h = 100 \<Longrightarrow> step J (AHost h) s = None"
  by (simp add: step_def host_step_def lim_def)

text \<open>
  C4. In every state that a job can reach, and for every host goroutine, the
  slots held of its semaphore are those of its goroutines in flight plus the
  one acquired for the goroutine about to be started, and they never exceed
  100; so at most 100 attempts against the host are in flight. A slot is
  taken before the \<open>go\<close> statement and given back by the deferred \<open>Release\<close>,
  whatever \<open>SSHLogin\<close> did, and \<open>Brute\<close> cannot take a slot while 100 are held.
\<close>

theorem Brute_ceiling:
  assumes "exec J sched init = Some s"
  shows "sem s h = in_flight J s h + pend_sem (hpc s h) \<and> sem s h \<le> 100 \<and>
         in_flight J s h \<le> 100 \<and>
         (\<forall>i. hpc s h = HLoop i \<and> i < length (jcreds J) \<and> sem s h = 100 \<longrightarrow>
              step J (AHost h) s = None)"
proof -
  from reachable_job_inv[OF assms] have "sync_inv J s"
    by (simp add: job_inv_def)
  then have "host_ok J h (hpc s h) (tpc s h) (sem s h) (wg s h)"
    by (simp add: sync_inv_def)
  then have "sem s h = in_flight J s h + pend_sem (hpc s h) \<and> sem s h \<le> 100 \<and>
         in_flight J s h \<le> 100"
    by (simp add: host_ok_def in_flight_def lim_def)
  then show ?thesis
    using acquire_blocks_at_ceiling by blast
qed

theorem Brute_ceiling_witness:
  "exec job22 sched_launch init \<noteq> None \<and>
   sem (the (exec job22 sched_launch init)) 0 = 2 \<and>
   in_flight job22 (the (exec job22 sched_launch init)) 0 = 2 \<and>
   in_flight job22 (the (exec job22 sched_launch init)) 0 \<le> 100"
proof -
  have ne: "exec job22 sched_launch init \<noteq> None"
    by (simp add: sched_launch_def run22)
  then have e: "exec job22 sched_launch init = Some (the (exec job22 sched_launch init))"
    by simp
  have "sem (the (exec job22 sched_launch init)) 0 = 2"
    by (simp add: sched_launch_def run22)
  moreover have "pend_sem (hpc (the (exec job22 sched_launch init)) 0) = 0"
    by (simp add: sched_launch_def run22 pend_sem_def)
  ultimately show ?thesis
    using ne Brute_ceiling [OF e, of 0] by simp
qed

text \<open>
  When \<open>Brute\<close> for a host has returned, the goroutine of every credential in
  its list has left \<open>SSHLogin\<close>: it has performed all of it, and with it
  exactly one send on the result channel, unless its dial has panicked.
\<close>

lemma Brute_returned_logins:
  assumes "exec J sched init = Some s" and "hpc s h = HReturned" and "j < length (jcreds J)"
  shows "effects_of h j (trace s) = login_of J h j \<and>
         length (sends (effects_of h j (trace s))) =
           (if EPanic \<in> set (login_of J h j) then 0 else 1)"
proof -
  from reachable_job_inv[OF assms(1)] have i: "sync_inv J s" and t: "trace_ok J s"
    by (simp_all add: job_inv_def)
  from i have "host_ok J h (hpc s h) (tpc s h) (sem s h) (wg s h)"
    by (simp add: sync_inv_def)
  with assms(2) have l: "launched_upto (tpc s h) (length (jcreds J))"
    and d: "\<forall>j < length (jcreds J). \<not> not_done J h j (tpc s h j)"
    by (simp_all add: host_ok_def pc_ok_def)
  from l assms(3) obtain k where k: "tpc s h j = Some k"
    by (auto simp: launched_upto_def)
  with d assms(3) have "length (login_of J h j) < k"
    by (auto simp: not_done_def)
  with t k have "effects_of h j (trace s) = login_of J h j"
    by (simp add: trace_ok_def)
  then show ?thesis
    using login_sends_count[of "jenv J" "jhosts J ! h" "jport J" "jcreds J ! j" "jdebug J"]
    by (simp add: login_of_def)
qed

lemma prog_nokey:
  "login_of job_nokey 0 0 =
     [EReadFile ''/no/such/key'', EDial ''tcp'' ''10.0.0.1:22'' cfg_nil, EPanic]"
  "trial_prog job_nokey 0 0 =
     [Eff (EReadFile ''/no/such/key''), Eff (EDial ''tcp'' ''10.0.0.1:22'' cfg_nil), Eff EPanic,
      WgDone, Release]"
  by (simp_all add: trial_prog_def login_of_def job_nokey_def SSHLogin_def sshConfig_of_def
      PublicKeyFile_def ssh_Dial_def env_demo_def cred_nokey_def cfg_nil_def show_int_22)

lemma job_nokey_sizes:
  "length (jhosts job_nokey) = 1" "length (jcreds job_nokey) = 1" "jcreds job_nokey = [cred_nokey]"
  by (simp_all add: job_nokey_def)

lemmas run_nokey = init_def step_def main_step_def host_step_def trial_step_def prog_nokey
  job_nokey_sizes lim_def

text \<open>
  C5. \<open>Brute\<close> can return without a result for one of its credentials. The
  key file of the credential cannot be read, so the dial of its goroutine
  panics; the deferred \<open>wg.Done()\<close> runs while the panic unwinds and brings
  the counter to zero, and \<open>Brute\<close> returns from \<open>wg.Wait()\<close>. At this point
  the goroutine is at its deferred \<open>Release\<close>, the program has not ended yet,
  and nothing has been sent on the result channel.
\<close>

theorem Brute_returns_without_result:
  "(case exec job_nokey sched_unwind init of
      None \<Rightarrow> False
    | Some s \<Rightarrow>
        hpc s 0 = HReturned \<and> \<not> panicked s \<and> jcreds job_nokey = [cred_nokey] \<and>
        effects_of 0 0 (trace s) =
          [EReadFile ''/no/such/key'', EDial ''tcp'' ''10.0.0.1:22'' cfg_nil, EPanic] \<and>
        sends (effects_of 0 0 (trace s)) = [] \<and> received s = [] \<and>
        tpc s 0 0 = Some 4 \<and> trial_prog job_nokey 0 0 ! 4 = Release \<and> wg s 0 = 0)"
  by (simp add: sched_unwind_def run_nokey received_def effects_of_def)

text \<open>
  C8. A credential with a password and with a key file that cannot be read,
  tried on the server of \<open>env_demo\<close>, which would accept the password.
  \<open>PublicKeyFile\<close> returns \<open>nil\<close>; \<open>SSHLogin\<close> builds no condition of its own
  and does not fail before dialing: it dials with the \<open>nil\<close> method alone (so it
  does not fall back to the password), and the dial panics. Under
  \<open>sched_crash\<close> the panic has ended the program: no result has been sent,
  \<open>SSHBruteForce\<close> is still at its first receive, and no goroutine moves any
  more.
\<close>

theorem unreadable_key_ends_program:
  "Credential.PrivateKey cred_nokey = ''/no/such/key'' \<and>
   Credential.Password cred_nokey = ''toor'' \<and>
   PublicKeyFile env_demo ''/no/such/key'' = None \<and>
   ssh_Dial env_demo ''tcp'' ''10.0.0.1:22'' cfg_a = DialOk (Client 1) \<and>
   login_of job_nokey 0 0 =
     [EReadFile ''/no/such/key'', EDial ''tcp'' ''10.0.0.1:22'' cfg_nil, EPanic] \<and>
   Auth cfg_nil = [None] \<and>
   (case exec job_nokey sched_crash init of
      None \<Rightarrow> False
    | Some s \<Rightarrow>
        panicked s \<and> received s = [] \<and> successfulHosts s = [] \<and> mpc s = MRecv 0 \<and>
        (\<forall>a. step job_nokey a s = None))"
  by (simp add: sched_crash_def sched_unwind_def run_nokey received_def cred_nokey_def
      PublicKeyFile_def ssh_Dial_def env_demo_def cfg_a_def cfg_nil_def)

text \<open>
  C1. The receive loop of \<open>SSHBruteForce\<close> runs \<open>len(hosts)\<close> times. With two
  hosts and two credentials it returns after two receives: the two goroutines
  of the second host stay blocked at their send, and \<open>Brute\<close> for that host
  stays blocked in \<open>wg.Wait()\<close> with a counter of 2.
\<close>

theorem two_hosts_two_creds:
  "(case exec job22 sched22 init of
      None \<Rightarrow> False
    | Some s \<Rightarrow>
        mpc s = MReturned \<and> length (received s) = 2 \<and>
        length (jhosts job22) * length (jcreds job22) = 4 \<and>
        tpc s 1 0 = Some 1 \<and> tpc s 1 1 = Some 1 \<and>
        trial_prog job22 1 0 ! 1 =
          Eff (ESend \<lparr>Status = [], Success = False, Username = ''root'', Secret = ''toor'',
                      Host = ''10.0.0.2''\<rparr>) \<and>
        trial_prog job22 1 1 ! 1 =
          Eff (ESend \<lparr>Status = [], Success = False, Username = ''root'', Secret = ''12345'',
                      Host = ''10.0.0.2''\<rparr>) \<and>
        step job22 (ATrial 1 0) s = None \<and> step job22 (ATrial 1 1) s = None \<and>
        hpc s 1 = HWait \<and> wg s 1 = 2 \<and> step job22 (AHost 1) s = None)"
  by (simp add: sched22_def run22 received_def)

section \<open>Properties of \<open>Run\<close>\<close>

text \<open>
  C6. When the parameters of a task have an empty host list, an empty user
  name, or neither a password nor a private key, \<open>Run\<close> sends one message with
  \<open>Error = true\<close> and the text of the first failed check (hosts, then secret,
  then user name), whatever the schedule, and no goroutine of \<open>SSHBruteForce\<close>
  has performed any effect.
\<close>

theorem Run_rejects_bad_params:
  assumes "Unmarshal e (Params task) = Inr p"
    and "Hosts p = [] \<or> SSHTestParams.Username p = [] \<or>
         (SSHTestParams.Password p = [] \<and> SSHTestParams.PrivateKey p = [])"
  shows "Run e sched task =
           Some \<lparr>logged = [], attempts = [],
                 sent = [\<lparr>TaskItem = task,
                          TaskResult =
                            (if Hosts p = [] then ''Error: No host or list of hosts given.''
                             else if SSHTestParams.Password p = [] \<and> SSHTestParams.PrivateKey p = []
                             then ''Error: No password or private key given to attempt authentication with.''
                             else ''Error: No username given to attempt authentication with.''),
                          Error = True\<rparr>]\<rparr>"
  using assms by (auto simp: Run_def)

lemma demo_unmarshal:
  "Unmarshal env_demo (Params task_nohosts) = Inr (demo_params\<lparr>Hosts := []\<rparr>)"
  "Unmarshal env_demo (Params task_nosecret) = Inr (demo_params\<lparr>SSHTestParams.Password := []\<rparr>)"
  "Unmarshal env_demo (Params task_nouser) = Inr (demo_params\<lparr>SSHTestParams.Username := []\<rparr>)"
  "Unmarshal env_demo (Params task_demo) = Inr demo_params"
  "Unmarshal env_demo (Params task_unreachable) =
     Inr (demo_params\<lparr>Hosts := [''10.0.0.2''], Port := 2222\<rparr>)"
  "Unmarshal env_demo (Params task_badkey) =
     Inr (demo_params\<lparr>Hosts := [''10.0.0.1''], SSHTestParams.PrivateKey := ''/no/such/key''\<rparr>)"
  "Unmarshal env_demo (Params task_garbage) = Inl ''unexpected end of JSON input''"
  by (simp_all add: env_demo_def task_demo_def task_nohosts_def task_nosecret_def task_nouser_def
      task_unreachable_def task_badkey_def task_garbage_def)

theorem Run_rejects_bad_params_witness:
  "Run env_demo sched_demo task_nohosts =
     Some \<lparr>logged = [], attempts = [],
           sent = [\<lparr>TaskItem = task_nohosts,
                    TaskResult = ''Error: No host or list of hosts given.'', Error = True\<rparr>]\<rparr> \<and>
   Run env_demo sched_demo task_nosecret =
     Some \<lparr>logged = [], attempts = [],
           sent = [\<lparr>TaskItem = task_nosecret,
                    TaskResult = ''Error: No password or private key given to attempt authentication with.'',
                    Error = True\<rparr>]\<rparr> \<and>
   Run env_demo sched_demo task_nouser =
     Some \<lparr>logged = [], attempts = [],
           sent = [\<lparr>TaskItem = task_nouser,
                    TaskResult = ''Error: No username given to attempt authentication with.'',
                    Error = True\<rparr>]\<rparr>"
  using Run_rejects_bad_params [of env_demo task_nohosts "demo_params\<lparr>Hosts := []\<rparr>" sched_demo]
    Run_rejects_bad_params [of env_demo task_nosecret "demo_params\<lparr>SSHTestParams.Password := []\<rparr>" sched_demo]
    Run_rejects_bad_params [of env_demo task_nouser "demo_params\<lparr>SSHTestParams.Username := []\<rparr>" sched_demo]
  by (simp add: demo_unmarshal demo_params_def)

text \<open>
  C7. For valid parameters, when \<open>SSHBruteForce\<close> returns an empty success list
  the message of \<open>Run\<close> has \<open>Error = false\<close> and the text
  \<open>[-] No successful authentication attempts.\<close>; when the list is not empty the
  message has \<open>Error = false\<close> and the text that \<open>json.MarshalIndent\<close> returned
  for the list with prefix \<open>""\<close> and an indent of four spaces. The success list
  holds the successful ones among the results received, in the order received.
\<close>

theorem Run_renders_results:
  assumes "Unmarshal e (Params task) = Inr p"
    and "Hosts p \<noteq> []" and "SSHTestParams.Username p \<noteq> []"
    and "SSHTestParams.Password p \<noteq> [] \<or> SSHTestParams.PrivateKey p \<noteq> []"
    and "SSHBruteForce e sched (totalHosts_of e (Hosts p)) (if Port p = 0 then 22 else Port p)
           [\<lparr>Credential.Username = SSHTestParams.Username p,
             Credential.Password = SSHTestParams.Password p,
             Credential.PrivateKey = SSHTestParams.PrivateKey p\<rparr>] False = Some (results, tr)"
  shows "results = filter Success (sends (map (\<lambda>x. snd (snd x)) tr)) \<and>
         (results = [] \<longrightarrow>
            Run e sched task =
              Some \<lparr>logged = [], attempts = tr,
                    sent = [\<lparr>TaskItem = task,
                             TaskResult = ''[-] No successful authentication attempts.'',
                             Error = False\<rparr>]\<rparr>) \<and>
         (results \<noteq> [] \<longrightarrow>
            (\<forall>data. MarshalIndent e results [] ''    '' = Inr data \<longrightarrow>
               Run e sched task =
                 Some \<lparr>logged = [], attempts = tr,
                       sent = [\<lparr>TaskItem = task, TaskResult = data, Error = False\<rparr>]\<rparr>))"
  using assms brute_results[OF assms(5)] by (auto simp: Run_def Let_def)

text \<open>Whenever \<open>Run\<close> returns, it has sent exactly one message, on every path.\<close>

lemma Run_sent_length:
  assumes "Run e sched task = Some out"
  shows "length (sent out) = 1"
  using assms
  by (auto simp: Run_def Let_def split: sum.splits if_splits option.splits prod.splits)


lemma show_int_2222: "show_int 2222 = ''2222''"
  by code_simp

lemma prog_demo:
  "trial_prog job_demo 0 0 =
     [Eff (EDial ''tcp'' ''10.0.0.1:22'' cfg_a), Eff (ENewSession (Client 1)),
      Eff (EClose (Session 1)), Eff (ESend res_ok), WgDone, Release]"
  "trial_prog job_demo (Suc 0) 0 =
     [Eff (EDial ''tcp'' ''10.0.0.2:22'' cfg_a),
      Eff (ESend (res_ok\<lparr>Success := False, Host := ''10.0.0.2''\<rparr>)), WgDone, Release]"
  "trial_prog job_one 0 0 =
     [Eff (EDial ''tcp'' ''10.0.0.2:2222'' cfg_a),
      Eff (ESend (res_ok\<lparr>Success := False, Host := ''10.0.0.2''\<rparr>)), WgDone, Release]"
  by (simp_all add: trial_prog_def login_of_def job_demo_def job_one_def SSHLogin_def
      sshConfig_of_def ssh_Dial_def env_demo_def cred_a_def show_int_22 show_int_2222 res_ok_def
      cfg_a_def)

lemma job_demo_sizes:
  "length (jhosts job_demo) = 2" "length (jcreds job_demo) = 1"
  "length (jhosts job_one) = 1" "length (jcreds job_one) = 1"
  by (simp_all add: job_demo_def job_one_def)

lemma exec_demo:
  "\<exists>s. exec job_demo sched_demo init = Some s \<and> mpc s = MReturned \<and>
       successfulHosts s = [res_ok] \<and> trace s = trace_demo"
  by (simp add: sched_demo_def init_def step_def main_step_def host_step_def trial_step_def
      prog_demo job_demo_sizes lim_def trace_demo_def res_ok_def)

lemma exec_one:
  "\<exists>s. exec job_one sched_one init = Some s \<and> mpc s = MReturned \<and>
       successfulHosts s = [] \<and> trace s = trace_one"
  by (simp add: sched_one_def init_def step_def main_step_def host_step_def trial_step_def
      prog_demo job_demo_sizes lim_def trace_one_def res_ok_def)

lemma brute_demo:
  "SSHBruteForce env_demo sched_demo [''10.0.0.1'', ''10.0.0.2''] 22 [cred_a] False =
     Some ([res_ok], trace_demo)"
  using exec_demo by (auto simp: SSHBruteForce_def job_demo_def)

lemma brute_one:
  "SSHBruteForce env_demo sched_one [''10.0.0.2''] 2222 [cred_a] False = Some ([], trace_one)"
  using exec_one by (auto simp: SSHBruteForce_def job_one_def)

lemma demo_cred:
  "\<lparr>Credential.Username = SSHTestParams.Username demo_params,
    Credential.Password = SSHTestParams.Password demo_params,
    Credential.PrivateKey = SSHTestParams.PrivateKey demo_params\<rparr> = cred_a"
  by (simp add: demo_params_def cred_a_def)

lemma demo_env:
  "NewCIDR env_demo x = (if x = [] then Inl ''invalid CIDR address'' else Inr [x])"
  "MarshalIndent env_demo rs pre ind = Inr (demo_render rs)"
  by (simp_all add: env_demo_def)

lemma Run_demo:
  "Run env_demo sched_demo task_demo =
     Some \<lparr>logged = [], attempts = trace_demo,
           sent = [\<lparr>TaskItem = task_demo, TaskResult = demo_render [res_ok],
                    Error = False\<rparr>]\<rparr>"
  using demo_cred
  by (simp add: Run_def demo_unmarshal demo_params_def demo_env brute_demo)

lemma Run_one:
  "Run env_demo sched_one task_unreachable =
     Some \<lparr>logged = [], attempts = trace_one,
           sent = [\<lparr>TaskItem = task_unreachable,
                    TaskResult = ''[-] No successful authentication attempts.'',
                    Error = False\<rparr>]\<rparr>"
  using demo_cred
  by (simp add: Run_def demo_unmarshal demo_params_def demo_env brute_one)


theorem Run_renders_results_witness:
  "Run env_demo sched_one task_unreachable =
     Some \<lparr>logged = [], attempts = trace_one,
           sent = [\<lparr>TaskItem = task_unreachable,
                    TaskResult = ''[-] No successful authentication attempts.'',
                    Error = False\<rparr>]\<rparr> \<and>
   Run env_demo sched_demo task_demo =
     Some \<lparr>logged = [], attempts = trace_demo,
           sent = [\<lparr>TaskItem = task_demo, TaskResult = demo_render [res_ok],
                    Error = False\<rparr>]\<rparr>"
proof -
  let ?p1 = "demo_params\<lparr>Hosts := [''10.0.0.2''], Port := 2222\<rparr>"
  have u1: "Unmarshal env_demo (Params task_unreachable) = Inr ?p1"
    by (simp add: demo_unmarshal)
  have b1: "SSHBruteForce env_demo sched_one (totalHosts_of env_demo (Hosts ?p1))
           (if Port ?p1 = 0 then 22 else Port ?p1)
           [\<lparr>Credential.Username = SSHTestParams.Username ?p1,
             Credential.Password = SSHTestParams.Password ?p1,
             Credential.PrivateKey = SSHTestParams.PrivateKey ?p1\<rparr>] False = Some ([], trace_one)"
    using demo_cred by (simp add: demo_params_def demo_env brute_one)
  have u2: "Unmarshal env_demo (Params task_demo) = Inr demo_params"
    by (simp add: demo_unmarshal)
  have b2: "SSHBruteForce env_demo sched_demo (totalHosts_of env_demo (Hosts demo_params))
           (if Port demo_params = 0 then 22 else Port demo_params)
           [\<lparr>Credential.Username = SSHTestParams.Username demo_params,
             Credential.Password = SSHTestParams.Password demo_params,
             Credential.PrivateKey = SSHTestParams.PrivateKey demo_params\<rparr>] False =
           Some ([res_ok], trace_demo)"
    using demo_cred by (simp add: demo_params_def demo_env brute_demo)
  have v1: "Hosts ?p1 \<noteq> []" "SSHTestParams.Username ?p1 \<noteq> []"
    "SSHTestParams.Password ?p1 \<noteq> [] \<or> SSHTestParams.PrivateKey ?p1 \<noteq> []"
    by (simp_all add: demo_params_def)
  have v2: "Hosts demo_params \<noteq> []" "SSHTestParams.Username demo_params \<noteq> []"
    "SSHTestParams.Password demo_params \<noteq> [] \<or> SSHTestParams.PrivateKey demo_params \<noteq> []"
    by (simp_all add: demo_params_def)
  show ?thesis
    using Run_renders_results [OF u1 v1 b1] Run_renders_results [OF u2 v2 b2]
    by (simp add: demo_env)
qed

lemma dial_in_login:
  "EDial n a c \<in> set (SSHLogin e host port cred debug) \<Longrightarrow>
   n = ''tcp'' \<and> a = host @ '':'' @ show_int port \<and> c = sshConfig_of e cred"
  by (auto simp: SSHLogin_def Let_def split: sum.splits if_splits dial_result.splits)

lemma trace_entry:
  assumes "job_inv J s" and "(h, j, x) \<in> set (trace s)"
  shows "h < length (jhosts J) \<and> j < length (jcreds J) \<and> x \<in> set (login_of J h j)"
proof -
  from assms(1) have t: "trace_ok J s" and m: "main_ok J s"
    and ok: "host_ok J h (hpc s h) (tpc s h) (sem s h) (wg s h)"
    by (simp_all add: job_inv_def sync_inv_def)
  from assms(2) have x: "x \<in> set (effects_of h j (trace s))"
    by (force simp: effects_of_def)
  from t have e: "effects_of h j (trace s) =
      (case tpc s h j of None \<Rightarrow> [] | Some k \<Rightarrow> take k (login_of J h j))"
    by (simp add: trace_ok_def)
  from x e obtain k where k: "tpc s h j = Some k" and xk: "x \<in> set (take k (login_of J h j))"
    by (cases "tpc s h j") auto
  from xk have "x \<in> set (login_of J h j)"
    by (rule in_set_takeD)
  moreover from ok k have "j < length (jcreds J)"
    by (rule host_ok_launched)
  moreover from ok k have "hpc s h \<noteq> NotStarted"
    by (auto simp: host_ok_def pc_ok_def launched_upto_def)
  with m have "h < length (jhosts J)"
    by (auto simp: main_ok_def started_upto_def split: mainpc.splits)
  ultimately show ?thesis by simp
qed

lemma SSHBruteForce_dials:
  assumes "SSHBruteForce e sched hosts port creds debug = Some (results, tr)"
    and "(h, j, EDial n a c) \<in> set tr"
  shows "h < length hosts \<and> a = hosts ! h @ '':'' @ show_int port"
proof -
  let ?J = "\<lparr>jenv = e, jhosts = hosts, jport = port, jcreds = creds, jdebug = debug\<rparr>"
  from assms(1) obtain s where s: "exec ?J sched init = Some s" and tr: "tr = trace s"
    by (auto simp: SSHBruteForce_def split: option.splits if_splits)
  from trace_entry[OF reachable_job_inv[OF s], of h j "EDial n a c"] assms(2) tr
  have "h < length hosts" and "EDial n a c \<in> set (login_of ?J h j)"
    by simp_all
  then show ?thesis
    by (auto simp: login_of_def dest: dial_in_login)
qed

text \<open>
  C9. For valid parameters, \<open>Run\<close> calls \<open>SSHBruteForce\<close> with port 22 when the
  port parameter is zero and with the port parameter otherwise: the effects of
  the call are those of a call with that port, every dial made goes to the
  host of its goroutine at that port, and every host is dialed at that port.
\<close>

theorem Run_port_default:
  assumes "Unmarshal e (Params task) = Inr p"
    and "Hosts p \<noteq> []" and "SSHTestParams.Username p \<noteq> []"
    and "SSHTestParams.Password p \<noteq> [] \<or> SSHTestParams.PrivateKey p \<noteq> []"
    and "Run e sched task = Some out"
  shows "(\<exists>results.
            SSHBruteForce e sched (totalHosts_of e (Hosts p)) (if Port p = 0 then 22 else Port p)
              [\<lparr>Credential.Username = SSHTestParams.Username p,
                Credential.Password = SSHTestParams.Password p,
                Credential.PrivateKey = SSHTestParams.PrivateKey p\<rparr>] False =
            Some (results, attempts out)) \<and>
         (\<forall>x \<in> set (attempts out). \<forall>n a c. snd (snd x) = EDial n a c \<longrightarrow>
            fst x < length (totalHosts_of e (Hosts p)) \<and>
            a = totalHosts_of e (Hosts p) ! fst x @ '':'' @
                show_int (if Port p = 0 then 22 else Port p)) \<and>
         (\<forall>h < length (totalHosts_of e (Hosts p)).
            \<exists>c. (h, 0, EDial ''tcp'' (totalHosts_of e (Hosts p) ! h @ '':'' @
                                       show_int (if Port p = 0 then 22 else Port p)) c)
                   \<in> set (attempts out))"
proof -
  let ?B = "SSHBruteForce e sched (totalHosts_of e (Hosts p)) (if Port p = 0 then 22 else Port p)
              [\<lparr>Credential.Username = SSHTestParams.Username p,
                Credential.Password = SSHTestParams.Password p,
                Credential.PrivateKey = SSHTestParams.PrivateKey p\<rparr>] False"
  from assms obtain results where b: "?B = Some (results, attempts out)"
    by (auto simp: Run_def Let_def split: option.splits prod.splits if_splits sum.splits)
  have "\<forall>x \<in> set (attempts out). \<forall>n a c. snd (snd x) = EDial n a c \<longrightarrow>
            fst x < length (totalHosts_of e (Hosts p)) \<and>
            a = totalHosts_of e (Hosts p) ! fst x @ '':'' @
                show_int (if Port p = 0 then 22 else Port p)"
  proof (intro ballI allI impI)
    fix x n a c
    assume "x \<in> set (attempts out)" and "snd (snd x) = EDial n a c"
    then have "(fst x, fst (snd x), EDial n a c) \<in> set (attempts out)"
      by (metis prod.collapse)
    from SSHBruteForce_dials[OF b this]
    show "fst x < length (totalHosts_of e (Hosts p)) \<and>
            a = totalHosts_of e (Hosts p) ! fst x @ '':'' @
                show_int (if Port p = 0 then 22 else Port p)" .
  qed
  moreover have "\<forall>h < length (totalHosts_of e (Hosts p)).
            \<exists>c. (h, 0, EDial ''tcp'' (totalHosts_of e (Hosts p) ! h @ '':'' @
                                       show_int (if Port p = 0 then 22 else Port p)) c)
                   \<in> set (attempts out)"
  proof (intro allI impI)
    fix h
    assume "h < length (totalHosts_of e (Hosts p))"
    from single_cred_complete[OF b this] dial_mem_login
    have "EDial ''tcp'' (totalHosts_of e (Hosts p) ! h @ '':'' @
                         show_int (if Port p = 0 then 22 else Port p))
            (sshConfig_of e \<lparr>Credential.Username = SSHTestParams.Username p,
                Credential.Password = SSHTestParams.Password p,
                Credential.PrivateKey = SSHTestParams.PrivateKey p\<rparr>)
          \<in> set (effects_of h 0 (attempts out))"
      by simp
    then show "\<exists>c. (h, 0, EDial ''tcp'' (totalHosts_of e (Hosts p) ! h @ '':'' @
                                       show_int (if Port p = 0 then 22 else Port p)) c)
                   \<in> set (attempts out)"
      using effects_of_mem by blast
  qed
  ultimately show ?thesis using b by blast
qed

theorem Run_port_default_witness:
  "(0, 0, EDial ''tcp'' ''10.0.0.1:22'' cfg_a) \<in> set (attempts (the (Run env_demo sched_demo task_demo))) \<and>
   Port demo_params = 0 \<and>
   ''10.0.0.1:22'' = totalHosts_of env_demo (Hosts demo_params) ! 0 @ '':'' @ show_int 22 \<and>
   (0, 0, EDial ''tcp'' ''10.0.0.2:2222'' cfg_a) \<in> set (attempts (the (Run env_demo sched_one task_unreachable))) \<and>
   Port (demo_params\<lparr>Hosts := [''10.0.0.2''], Port := 2222\<rparr>) = 2222 \<and>
   ''10.0.0.2:2222'' = totalHosts_of env_demo (Hosts (demo_params\<lparr>Hosts := [''10.0.0.2''], Port := 2222\<rparr>)) ! 0 @ '':'' @ show_int 2222"
proof -
  let ?p1 = "demo_params\<lparr>Hosts := [''10.0.0.2''], Port := 2222\<rparr>"
  let ?o1 = "the (Run env_demo sched_one task_unreachable)"
  let ?o2 = "the (Run env_demo sched_demo task_demo)"
  have u1: "Unmarshal env_demo (Params task_unreachable) = Inr ?p1"
    by (simp add: demo_unmarshal)
  have u2: "Unmarshal env_demo (Params task_demo) = Inr demo_params"
    by (simp add: demo_unmarshal)
  have v1: "Hosts ?p1 \<noteq> []" "SSHTestParams.Username ?p1 \<noteq> []"
    "SSHTestParams.Password ?p1 \<noteq> [] \<or> SSHTestParams.PrivateKey ?p1 \<noteq> []"
    by (simp_all add: demo_params_def)
  have v2: "Hosts demo_params \<noteq> []" "SSHTestParams.Username demo_params \<noteq> []"
    "SSHTestParams.Password demo_params \<noteq> [] \<or> SSHTestParams.PrivateKey demo_params \<noteq> []"
    by (simp_all add: demo_params_def)
  have r1: "Run env_demo sched_one task_unreachable = Some ?o1"
    by (simp add: Run_one)
  have r2: "Run env_demo sched_demo task_demo = Some ?o2"
    by (simp add: Run_demo)
  have m1: "(0, 0, EDial ''tcp'' ''10.0.0.2:2222'' cfg_a) \<in> set (attempts ?o1)"
    by (simp add: Run_one trace_one_def)
  have m2: "(0, 0, EDial ''tcp'' ''10.0.0.1:22'' cfg_a) \<in> set (attempts ?o2)"
    by (simp add: Run_demo trace_demo_def)
  from Run_port_default [OF u1 v1 r1] m1
  have "''10.0.0.2:2222'' = totalHosts_of env_demo (Hosts ?p1) ! 0 @ '':'' @ show_int (if Port ?p1 = 0 then 22 else Port ?p1)"
    by force
  moreover from Run_port_default [OF u2 v2 r2] m2
  have "''10.0.0.1:22'' = totalHosts_of env_demo (Hosts demo_params) ! 0 @ '':'' @ show_int (if Port demo_params = 0 then 22 else Port demo_params)"
    by force
  ultimately show ?thesis
    using m1 m2 by (simp add: demo_params_def)
qed

text \<open>
  \<open>Run\<close> does return under some schedule of the goroutines, with its one
  message sent, when the task names no key file or one that \<open>PublicKeyFile\<close>
  can read and parse.
\<close>

lemma Run_returns_unless_unreadable_key:
  assumes "\<And>p. Unmarshal e (Params task) = Inr p \<Longrightarrow>
             SSHTestParams.PrivateKey p = [] \<or>
             PublicKeyFile e (SSHTestParams.PrivateKey p) \<noteq> None"
  shows "\<exists>sched' out. Run e sched' task = Some out \<and> length (sent out) = 1"
proof -
  have "\<exists>sched' out. Run e sched' task = Some out"
  proof (cases "Unmarshal e (Params task)")
    case (Inl err)
    then show ?thesis by (simp add: Run_def)
  next
    case (Inr p)
    let ?c = "\<lparr>Credential.Username = SSHTestParams.Username p,
                Credential.Password = SSHTestParams.Password p,
                Credential.PrivateKey = SSHTestParams.PrivateKey p\<rparr>"
    let ?J = "\<lparr>jenv = e, jhosts = totalHosts_of e (Hosts p),
               jport = (if Port p = 0 then 22 else Port p), jcreds = [?c], jdebug = False\<rparr>"
    from assms[OF Inr] have "no_panic ?J"
      by (auto simp: no_panic_def login_of_def login_panic_iff_dial ssh_Dial_panic_iff)
    then obtain sched' r where "SSHBruteForce e sched' (totalHosts_of e (Hosts p))
        (if Port p = 0 then 22 else Port p) [?c] False = Some r"
      using SSHBruteForce_returns[of "[?c]" e "totalHosts_of e (Hosts p)"
          "if Port p = 0 then 22 else Port p" False]
      by auto
    with Inr have "\<exists>out. Run e sched' task = Some out"
      by (cases r) (auto simp: Run_def Let_def split: sum.splits)
    then show ?thesis by blast
  qed
  with Run_sent_length show ?thesis
    by blast
qed

lemma login_nokey_panics:
  "EPanic \<in> set (SSHLogin env_demo ''10.0.0.1'' 22 cred_nokey False)"
  by (simp add: SSHLogin_def sshConfig_of_def PublicKeyFile_def ssh_Dial_def env_demo_def
      cred_nokey_def show_int_22)

lemma badkey_cred:
  "\<lparr>Credential.Username = ''root'', Credential.Password = ''toor'',
    Credential.PrivateKey = ''/no/such/key''\<rparr> = cred_nokey"
  by (simp add: cred_nokey_def)

text \<open>
  C10. \<open>task_badkey\<close> passes the three checks of \<open>Run\<close>: it has a host, a user
  name, a password and a private key. The key file cannot be read and the
  server asks for authentication, so the dial of the one goroutine of the job
  panics and sends no result. Under no schedule does \<open>SSHBruteForce\<close> return,
  so under no schedule does \<open>Run\<close> send a message; and under \<open>sched_crash\<close>
  the panic has ended the program with \<open>SSHBruteForce\<close> at its first receive.
\<close>

theorem Run_unreadable_key_sends_nothing:
  "Unmarshal env_demo (Params task_badkey) =
     Inr \<lparr>Hosts = [''10.0.0.1''], Port = 0, SSHTestParams.Username = ''root'',
          SSHTestParams.Password = ''toor'', SSHTestParams.PrivateKey = ''/no/such/key''\<rparr> \<and>
   (\<forall>sched. Run env_demo sched task_badkey = None) \<and>
   (case exec job_nokey sched_crash init of
      None \<Rightarrow> False
    | Some s \<Rightarrow>
        panicked s \<and> mpc s = MRecv 0 \<and>
        trace s = [(0, 0, EReadFile ''/no/such/key''),
                   (0, 0, EDial ''tcp'' ''10.0.0.1:22'' cfg_nil), (0, 0, EPanic)])"
proof -
  have "Run env_demo sched task_badkey = None" for sched
    using single_cred_panic_never_returns[of 0 "[''10.0.0.1'']" env_demo 22 cred_nokey False sched]
      login_nokey_panics
    by (simp add: Run_def demo_unmarshal demo_params_def demo_env badkey_cred)
  moreover have "(case exec job_nokey sched_crash init of
      None \<Rightarrow> False
    | Some s \<Rightarrow>
        panicked s \<and> mpc s = MRecv 0 \<and>
        trace s = [(0, 0, EReadFile ''/no/such/key''),
                   (0, 0, EDial ''tcp'' ''10.0.0.1:22'' cfg_nil), (0, 0, EPanic)])"
    by (simp add: sched_crash_def sched_unwind_def run_nokey)
  ultimately show ?thesis
    by (simp add: demo_unmarshal demo_params_def)
qed

end
